(* ===== verification/Prelude.thy ===== *)
theory Prelude
  imports Main
begin

text \<open>
  Shared vocabulary of the development: Python's string operations used by
  \<open>src/utils.py\<close> (slicing \<open>s[i:j]\<close>, \<open>str.find\<close>, \<open>ord\<close>), the Python
  exceptions the modelled code can raise, and the generic lemmas on lists the
  component theories share.  Python strings are modelled as \<open>string\<close>
  (\<open>char list\<close>); offsets are \<open>nat\<close> because every offset the code computes
  is a match position, hence non-negative.
\<close>

named_theorems slice_simps "rewriting of Python slices of concatenations"

section \<open>Python exceptions\<close>

datatype py_error = ValueError | IndexError | FileNotFoundError | KeyError

section \<open>Characters\<close>

text \<open>Python's \<open>ord\<close>: the code point of a character.\<close>

definition py_ord :: "char \<Rightarrow> nat" where
  "py_ord c = of_char c"

section \<open>Slicing\<close>

text \<open>\<open>s[i:j]\<close> for non-negative \<open>i\<close>, \<open>j\<close>: Python clamps both bounds to the
  length of \<open>s\<close> and yields the empty string when \<open>j \<le> i\<close>; \<open>take\<close> and
  \<open>drop\<close> clamp the same way.  \<open>s[:i]\<close> is \<open>take i s\<close>, \<open>s[j:]\<close> is
  \<open>drop j s\<close>.\<close>

definition slice :: "string \<Rightarrow> nat \<Rightarrow> nat \<Rightarrow> string" where
  "slice s i j = take (j - i) (drop i s)"

section \<open>Substring search\<close>

text \<open>Does \<open>w\<close> occur in \<open>s\<close> at offset \<open>i\<close>?\<close>

definition occurs_at :: "string \<Rightarrow> string \<Rightarrow> nat \<Rightarrow> bool" where
  "occurs_at w s i \<longleftrightarrow> take (length w) (drop i s) = w"

text \<open>The lowest offset of an occurrence, scanning from the left as CPython's
  \<open>str.find\<close> does.\<close>

fun find_idx :: "string \<Rightarrow> string \<Rightarrow> nat option" where
  "find_idx w s =
     (if take (length w) s = w then Some 0
      else case s of [] \<Rightarrow> None | _ # s' \<Rightarrow> map_option Suc (find_idx w s'))"

declare find_idx.simps [simp del]

text \<open>\<open>s.find(w)\<close>: the lowest offset, or \<open>-1\<close> when \<open>w\<close> does not occur.\<close>

definition py_find :: "string \<Rightarrow> string \<Rightarrow> int" where
  "py_find s w = (case find_idx w s of None \<Rightarrow> -1 | Some i \<Rightarrow> int i)"

section \<open>Lemmas on slices\<close>

lemma length_slice [simp]: "length (slice s i j) = min (length s) j - i"
  by (simp add: slice_def)

lemma slice_empty [simp]: "j \<le> i \<Longrightarrow> slice s i j = []"
  by (simp add: slice_def)

lemma take_slice_concat [slice_simps]:
  "i \<le> j \<Longrightarrow> take i s @ slice s i j = take j s"
  by (simp add: slice_def take_add [symmetric])

lemma slice_drop_concat [slice_simps]:
  "i \<le> j \<Longrightarrow> slice s i j @ drop j s = drop i s"
  by (simp add: slice_def) (metis append_take_drop_id drop_drop le_add_diff_inverse2)

lemma take_slice_drop [slice_simps]:
  "i \<le> j \<Longrightarrow> take i s @ slice s i j @ drop j s = s"
  by (simp add: slice_drop_concat)

lemma slice_append_left [slice_simps]:
  "j \<le> length a \<Longrightarrow> slice (a @ b) i j = slice a i j"
  by (simp add: slice_def)

lemma slice_append_right [slice_simps]:
  "length a \<le> i \<Longrightarrow> slice (a @ b) i j = slice b (i - length a) (j - length a)"
  by (simp add: slice_def)

lemma set_slice: "set (slice s i j) \<subseteq> set s"
  by (auto simp: slice_def dest: in_set_takeD in_set_dropD)

section \<open>Lemmas on \<open>find_idx\<close>\<close>

lemma find_idx_Some_iff:
  "find_idx w s = Some i \<longleftrightarrow> occurs_at w s i \<and> (\<forall>j<i. \<not> occurs_at w s j)"
proof (induction s arbitrary: i)
  case Nil
  show ?case
    by (cases i) (auto simp: occurs_at_def find_idx.simps)
next
  case (Cons c s)
  show ?case
  proof (cases "take (length w) (c # s) = w")
    case True
    then show ?thesis
      by (auto simp: occurs_at_def find_idx.simps)
  next
    case False
    then have "\<not> occurs_at w (c # s) 0" by (simp add: occurs_at_def)
    moreover have "occurs_at w (c # s) (Suc j) = occurs_at w s j" for j
      by (simp add: occurs_at_def)
    ultimately show ?thesis
      using False Cons.IH
      by (cases i) (auto simp: find_idx.simps less_Suc_eq_0_disj)
  qed
qed

lemma find_idx_None_iff:
  "find_idx w s = None \<longleftrightarrow> (\<forall>j. \<not> occurs_at w s j)"
proof
  assume none: "find_idx w s = None"
  show "\<forall>j. \<not> occurs_at w s j"
  proof (rule ccontr)
    assume "\<not> (\<forall>j. \<not> occurs_at w s j)"
    then have "\<exists>j. occurs_at w s j" by blast
    then obtain j where "occurs_at w s j" "\<forall>k<j. \<not> occurs_at w s k"
      using exists_least_iff [of "occurs_at w s"] by blast
    then have "find_idx w s = Some j" by (simp add: find_idx_Some_iff)
    with none show False by simp
  qed
next
  assume "\<forall>j. \<not> occurs_at w s j"
  then show "find_idx w s = None"
    by (cases "find_idx w s") (auto simp: find_idx_Some_iff)
qed

lemma occurs_at_append_self:
  "occurs_at w (a @ w @ b) (length a)"
  by (simp add: occurs_at_def)

text \<open>The search finds the copy of \<open>w\<close> placed after \<open>a\<close> exactly when no
  occurrence starts earlier.\<close>

lemma find_idx_append_self:
  assumes "\<forall>j<length a. \<not> occurs_at w (a @ w @ b) j"
  shows "find_idx w (a @ w @ b) = Some (length a)"
  using assms by (simp add: find_idx_Some_iff occurs_at_append_self)


lemma occurs_at_shift [simp]:
  "occurs_at w (a @ b) (length a + j) = occurs_at w b j"
  by (simp add: occurs_at_def)

text \<open>An occurrence of a non-empty word starts with the word's first
  character.\<close>

lemma occurs_at_nth:
  assumes "occurs_at w s j" and "w \<noteq> []"
  shows "j < length s \<and> s ! j = hd w"
proof -
  from assms have "take (length w) (drop j s) = w" by (simp add: occurs_at_def)
  with assms(2) obtain c cs where "drop j s = c # cs" "c = hd w"
    by (cases "drop j s") (auto split: list.splits, cases w, auto)
  then show ?thesis by (metis drop_eq_Nil2 hd_drop_conv_nth list.distinct(1) list.sel(1) not_le_imp_less)
qed

end
