(* ===== verification/Regex.thy ===== *)
theory Regex
  imports Prelude
begin

text \<open>
  The fragment of Python's \<open>re\<close> syntax that the patterns of
  \<open>src/utils.py\<close> (\<open>PATTERNS\<close>, lines 9--18) use, and the semantics of
  \<open>re.finditer\<close> that the scanner calls on them (line 34).

  A text position is a cursor: the characters already passed (most recent
  first) and the characters still ahead.  \<open>ends r c\<close> lists every cursor at
  which a match of \<open>r\<close> started at \<open>c\<close> can end, in the order in which the
  backtracking engine \<open>sre\<close> tries them: left alternative before right one,
  greedy repetition one more iteration before stopping, lazy repetition the
  other way round.  The match that \<open>sre\<close> reports is therefore the head of
  this list.  After a repetition reaches its minimum count an iteration that
  consumed nothing ends the repetition, as \<open>sre\<close>'s guard on the position of
  the last iteration does.  Character classes are exact on ASCII, where
  Python's Unicode-aware \<open>\d\<close>, \<open>\s\<close> and \<open>\w\<close> agree with the ASCII
  definitions; capture groups do not change a match's extent and are omitted.
\<close>

section \<open>Syntax\<close>

text \<open>A member of a bracketed class \<open>[...]\<close>: one character, a range
  \<open>a-z\<close>, or one of the escapes \<open>\d\<close>, \<open>\s\<close>.\<close>

datatype citem = CChr char | CRng char char | CDigit | CSpace

text \<open>\<open>Rep r lo hi greedy\<close> is \<open>r{lo,hi}\<close> (\<open>hi = None\<close> for no bound),
  followed by \<open>?\<close> when it is lazy; \<open>Bnd\<close> is \<open>\b\<close>.\<close>

datatype rx =
    Eps
  | Lit char
  | Cls "citem list"
  | Cat rx rx
  | Alt rx rx
  | Rep rx nat "nat option" bool
  | Bnd

type_synonym cursor = "string \<times> string"

section \<open>Character predicates\<close>

definition is_digit :: "char \<Rightarrow> bool" where
  "is_digit c \<longleftrightarrow> 48 \<le> py_ord c \<and> py_ord c \<le> 57"

text \<open>\<open>str.isspace\<close> on ASCII: space, \<open>\t \n \v \f \r\<close> and the separators
  \<open>\x1c\<close>--\<open>\x1f\<close>.\<close>

definition is_space :: "char \<Rightarrow> bool" where
  "is_space c \<longleftrightarrow> py_ord c = 32 \<or> (9 \<le> py_ord c \<and> py_ord c \<le> 13) \<or> (28 \<le> py_ord c \<and> py_ord c \<le> 31)"

definition is_word :: "char \<Rightarrow> bool" where
  "is_word c \<longleftrightarrow> is_digit c \<or> (97 \<le> py_ord c \<and> py_ord c \<le> 122)
     \<or> (65 \<le> py_ord c \<and> py_ord c \<le> 90) \<or> py_ord c = 95"

fun item_match :: "citem \<Rightarrow> char \<Rightarrow> bool" where
  "item_match (CChr a) c = (c = a)"
| "item_match (CRng a b) c = (py_ord a \<le> py_ord c \<and> py_ord c \<le> py_ord b)"
| "item_match CDigit c = is_digit c"
| "item_match CSpace c = is_space c"

definition class_match :: "citem list \<Rightarrow> char \<Rightarrow> bool" where
  "class_match is c \<longleftrightarrow> list_ex (\<lambda>i. item_match i c) is"

text \<open>Is the character next to the cursor on this side a word character?
  Outside the text there is none.\<close>

definition word_next :: "string \<Rightarrow> bool" where
  "word_next s = (case s of [] \<Rightarrow> False | c # _ \<Rightarrow> is_word c)"

section \<open>Backtracking semantics\<close>

function ends :: "rx \<Rightarrow> cursor \<Rightarrow> cursor list"
  and rep :: "rx \<Rightarrow> nat \<Rightarrow> nat option \<Rightarrow> bool \<Rightarrow> cursor \<Rightarrow> cursor list" where
  "ends Eps c = [c]"
| "ends (Lit a) (p, s) =
     (case s of [] \<Rightarrow> [] | x # s' \<Rightarrow> if x = a then [(x # p, s')] else [])"
| "ends (Cls is) (p, s) =
     (case s of [] \<Rightarrow> [] | x # s' \<Rightarrow> if class_match is x then [(x # p, s')] else [])"
| "ends (Cat r1 r2) c = concat (map (ends r2) (ends r1 c))"
| "ends (Alt r1 r2) c = ends r1 c @ ends r2 c"
| "ends (Rep r lo hi g) c = rep r lo hi g c"
| "ends Bnd (p, s) = (if word_next p \<noteq> word_next s then [(p, s)] else [])"
| "rep r lo hi g c =
     (if 0 < lo then concat (map (rep r (lo - 1) (map_option (\<lambda>n. n - 1) hi) g) (ends r c))
      else if hi = Some 0 then [c]
      else
        (let more = concat (map (\<lambda>c'. if length (snd c') < length (snd c)
                                       then rep r 0 (map_option (\<lambda>n. n - 1) hi) g c'
                                       else [c']) (ends r c))
         in if g then more @ [c] else c # more))"
  by pat_completeness auto
termination
  by (relation "measures
        [\<lambda>x. case x of Inl (r, c) \<Rightarrow> size r | Inr (r, lo, hi, g, c) \<Rightarrow> size r,
         \<lambda>x. case x of Inl _ \<Rightarrow> 0 | Inr _ \<Rightarrow> (1::nat),
         \<lambda>x. case x of Inl _ \<Rightarrow> 0 | Inr (r, lo, hi, g, c) \<Rightarrow> lo,
         \<lambda>x. case x of Inl _ \<Rightarrow> 0 | Inr (r, lo, hi, g, c) \<Rightarrow> length (snd c)]") auto

declare rep.simps [simp del]

text \<open>\<open>re.match\<close> at a cursor: the first end the engine reaches.\<close>

definition match_at :: "rx \<Rightarrow> cursor \<Rightarrow> cursor option" where
  "match_at r c = (case ends r c of [] \<Rightarrow> None | c' # _ \<Rightarrow> Some c')"

text \<open>\<open>re.finditer\<close> from a cursor: try a match at each position from the left;
  report it as \<open>(start, end)\<close> and go on from its end.  An empty match would
  advance the search by one character (no pattern of the registry can match
  the empty string, see \<open>Patterns.patterns_nonempty\<close>).\<close>

function finditer :: "rx \<Rightarrow> cursor \<Rightarrow> (nat \<times> nat) list" where
  "finditer r (p, s) =
     (case match_at r (p, s) of
        Some c' \<Rightarrow> (length p, length (fst c')) #
          (if length (snd c') < length s then finditer r c'
           else (case s of [] \<Rightarrow> [] | x # s' \<Rightarrow> finditer r (x # p, s')))
      | None \<Rightarrow> (case s of [] \<Rightarrow> [] | x # s' \<Rightarrow> finditer r (x # p, s')))"
  by pat_completeness auto
termination
  by (relation "measure (\<lambda>(r, c). length (snd c))") auto

declare finditer.simps [simp del]

text \<open>\<open>re.finditer(pattern, text)\<close>: the search starts before the first
  character.\<close>

definition py_finditer :: "rx \<Rightarrow> string \<Rightarrow> (nat \<times> nat) list" where
  "py_finditer r t = finditer r ([], t)"

text \<open>Patterns are written as sequences.\<close>

fun rseq :: "rx list \<Rightarrow> rx" where
  "rseq [] = Eps"
| "rseq [r] = r"
| "rseq (r # rs) = Cat r (rseq rs)"


section \<open>Consumption\<close>

text \<open>\<open>advances c c'\<close>: \<open>c'\<close> is \<open>c\<close> moved forward over the characters
  \<open>u\<close>; \<open>consumes n c c'\<close>: over at least \<open>n\<close> of them.  \<open>min_len r\<close> is
  a lower bound on the length of every match of \<open>r\<close>.\<close>

definition advances :: "cursor \<Rightarrow> cursor \<Rightarrow> bool" where
  "advances c c' \<longleftrightarrow> (\<exists>u. fst c' = rev u @ fst c \<and> snd c = u @ snd c')"

definition consumes :: "nat \<Rightarrow> cursor \<Rightarrow> cursor \<Rightarrow> bool" where
  "consumes n c c' \<longleftrightarrow> advances c c' \<and> n + length (snd c') \<le> length (snd c)"

fun min_len :: "rx \<Rightarrow> nat" where
  "min_len Eps = 0"
| "min_len (Lit _) = 1"
| "min_len (Cls _) = 1"
| "min_len (Cat r1 r2) = min_len r1 + min_len r2"
| "min_len (Alt r1 r2) = min (min_len r1) (min_len r2)"
| "min_len (Rep r lo _ _) = lo * min_len r"
| "min_len Bnd = 0"

text \<open>The cursor at offset \<open>i\<close> of a text.\<close>

definition cursor_at :: "string \<Rightarrow> nat \<Rightarrow> cursor" where
  "cursor_at t i = (rev (take i t), drop i t)"

section \<open>Every match consumes a prefix of the input\<close>

lemma advances_refl [simp, intro]: "advances c c"
  by (auto simp: advances_def)

lemma advances_trans: "advances a b \<Longrightarrow> advances b c \<Longrightarrow> advances a c"
  by (auto simp: advances_def)

lemma advances_length: "advances c c' \<Longrightarrow> length (snd c) = length (snd c') + (length (fst c') - length (fst c)) \<and> length (fst c) \<le> length (fst c')"
  by (auto simp: advances_def)

lemma advances_text: "advances c c' \<Longrightarrow> rev (fst c') @ snd c' = rev (fst c) @ snd c"
  by (auto simp: advances_def)

lemma consumes_trans: "consumes m a b \<Longrightarrow> consumes n b c \<Longrightarrow> consumes (m + n) a c"
  by (auto simp: consumes_def intro: advances_trans)

lemma consumes_mono: "consumes n a b \<Longrightarrow> m \<le> n \<Longrightarrow> consumes m a b"
  by (auto simp: consumes_def)

lemma consumes_refl: "consumes 0 c c"
  by (simp add: consumes_def)

lemma consumes_step: "consumes (Suc 0) (p, x # s) (x # p, s)"
  by (auto simp: consumes_def advances_def intro: exI [of _ "[x]"])

lemma consumes_concat_map:
  assumes "c' \<in> set (concat (map F xs))"
    and "\<And>d. d \<in> set xs \<Longrightarrow> consumes m c d"
    and "\<And>d e. d \<in> set xs \<Longrightarrow> e \<in> set (F d) \<Longrightarrow> consumes n d e"
  shows "consumes (m + n) c c'"
proof -
  from assms(1) obtain d where "d \<in> set xs" "c' \<in> set (F d)" by auto
  with assms(2,3) show ?thesis by (blast intro: consumes_trans)
qed

lemma ends_consumes:
  "c' \<in> set (ends r c) \<Longrightarrow> consumes (min_len r) c c'"
  "c' \<in> set (rep r lo hi g c) \<Longrightarrow> consumes (lo * min_len r) c c'"
proof (induction r c and r lo hi g c arbitrary: c' and c' rule: ends_rep.induct)
  case (1 c)
  then show ?case by (simp add: consumes_refl)
next
  case (2 a p s)
  then show ?case by (auto split: list.splits if_splits intro: consumes_step)
next
  case (3 "is" p s)
  then show ?case by (auto split: list.splits if_splits intro: consumes_step)
next
  case (4 r1 r2 c)
  from "4.prems" have "c' \<in> set (concat (map (ends r2) (ends r1 c)))" by simp
  then have "consumes (min_len r1 + min_len r2) c c'"
    by (rule consumes_concat_map) (use "4.IH" in blast)+
  then show ?case by simp
next
  case (5 r1 r2 c)
  from "5.prems" have "c' \<in> set (ends r1 c) \<or> c' \<in> set (ends r2 c)" by simp
  then show ?case
  proof
    assume h: "c' \<in> set (ends r1 c)"
    show ?case by (rule consumes_mono [OF "5.IH"(1) [OF h]]) simp
  next
    assume h: "c' \<in> set (ends r2 c)"
    show ?case by (rule consumes_mono [OF "5.IH"(2) [OF h]]) simp
  qed
next
  case (6 r lo hi g c)
  then show ?case by simp
next
  case (7 p s)
  then show ?case by (auto simp: consumes_refl split: if_splits)
next
  case (8 r lo hi g c)
  show ?case
  proof (cases "0 < lo")
    case True
    with "8.prems" have "c' \<in> set (concat (map (rep r (lo - 1) (map_option (\<lambda>n. n - 1) hi) g) (ends r c)))"
      by (simp add: rep.simps [of r lo hi g c])
    then have "consumes (min_len r + (lo - 1) * min_len r) c c'"
      by (rule consumes_concat_map) (use True "8.IH"(1,2) in auto)
    moreover from True have "min_len r + (lo - 1) * min_len r = lo * min_len r"
      by (cases lo) auto
    ultimately show ?thesis by simp
  next
    case False
    let ?F = "\<lambda>c'. if length (snd c') < length (snd c)
                   then rep r 0 (map_option (\<lambda>n. n - 1) hi) g c' else [c']"
    have more: "consumes 0 c e" if "hi \<noteq> Some 0" "e \<in> set (concat (map ?F (ends r c)))" for e
    proof -
      from that(2) have "consumes (min_len r + 0) c e"
        by (rule consumes_concat_map)
           (use False that(1) "8.IH"(3,4) in \<open>auto split: if_splits intro: consumes_refl\<close>)
      then show ?thesis by (rule consumes_mono) simp
    qed
    from "8.prems" have c': "c' \<in> set (rep r lo hi g c)" .
    show ?thesis
    proof (cases "hi = Some 0")
      case True
      with c' False show ?thesis
        unfolding rep.simps [of r lo hi g c] by (simp add: consumes_refl)
    next
      case hi: False
      from c' have "c' = c \<or> c' \<in> set (concat (map ?F (ends r c)))"
        unfolding rep.simps [of r lo hi g c] using hi False
        by (cases g) (auto simp del: set_concat simp: Let_def)
      then show ?thesis
      proof
        assume "c' \<in> set (concat (map ?F (ends r c)))"
        with hi False show ?thesis using more by simp
      qed (use False in \<open>simp add: consumes_refl\<close>)
    qed
  qed
qed

lemma ends_advances: "c' \<in> set (ends r c) \<Longrightarrow> advances c c'"
  using ends_consumes(1) by (auto simp: consumes_def)

lemma match_at_in_ends: "match_at r c = Some c' \<Longrightarrow> c' \<in> set (ends r c)"
  by (cases "ends r c") (simp_all add: match_at_def)

lemma match_at_advances: "match_at r c = Some c' \<Longrightarrow> advances c c'"
  by (rule ends_advances) (rule match_at_in_ends)

lemma finditer_bounds:
  "(a, b) \<in> set (finditer r (p, s)) \<Longrightarrow> length p \<le> a \<and> a \<le> b \<and> b \<le> length p + length s"
proof (induction r "(p, s)" arbitrary: p s rule: finditer.induct)
  case (1 r p s)
  show ?case
  proof (cases "match_at r (p, s)")
    case None
    with "1.prems" obtain x s'' where "s = x # s''" "(a, b) \<in> set (finditer r (x # p, s''))"
      by (auto simp: finditer.simps [of r p s] split: list.splits)
    with "1.hyps"(1) [OF None] show ?thesis by fastforce
  next
    case (Some c')
    then have adv: "advances (p, s) c'" by (rule match_at_advances)
    obtain p' s' where c'eq: "c' = (p', s')" by fastforce
    from adv c'eq have len: "length s = length s' + (length p' - length p)" "length p \<le> length p'"
      using advances_length by fastforce+
    from "1.prems" Some c'eq consider
        "a = length p" "b = length p'"
      | "length s' < length s" "(a, b) \<in> set (finditer r (p', s'))"
      | x s'' where "\<not> length s' < length s" "s = x # s''" "(a, b) \<in> set (finditer r (x # p, s''))"
      by (auto simp: finditer.simps [of r p s] split: if_splits list.splits)
    then show ?thesis
    proof cases
      case 1
      with len show ?thesis by simp
    next
      case 2
      with "1.hyps"(2) [of p' s'] Some c'eq len show ?thesis by fastforce
    next
      case 3
      with "1.hyps"(3) [OF Some] c'eq len show ?thesis by fastforce
    qed
  qed
qed


lemma cursor_at_self: "cursor_at (rev p @ s) (length p) = (p, s)"
  by (simp add: cursor_at_def)

section \<open>\<open>finditer\<close>: spans in bounds, in order, and matches of the engine\<close>

lemma finditer_sorted: "sorted_wrt (\<lambda>x y. snd x \<le> fst y) (finditer r (p, s))"
proof (induction r "(p, s)" arbitrary: p s rule: finditer.induct)
  case (1 r p s)
  show ?case
  proof (cases "match_at r (p, s)")
    case None
    with "1.hyps"(1) [OF None] show ?thesis
      by (auto simp: finditer.simps [of r p s] split: list.splits)
  next
    case (Some c')
    obtain p' s' where c'eq: "c' = (p', s')" by fastforce
    from Some c'eq have adv: "advances (p, s) (p', s')" by (simp add: match_at_advances)
    then have len: "length s = length s' + (length p' - length p)" "length p \<le> length p'"
      using advances_length by fastforce+
    show ?thesis
    proof (cases "length s' < length s")
      case True
      with "1.hyps"(2) [of p' s'] Some c'eq have "sorted_wrt (\<lambda>x y. snd x \<le> fst y) (finditer r (p', s'))"
        by simp
      moreover have "\<forall>y \<in> set (finditer r (p', s')). length p' \<le> fst y"
        using finditer_bounds by fastforce
      ultimately show ?thesis
        using True Some c'eq by (simp add: finditer.simps [of r p s])
    next
      case False
      with len have "length p' = length p" by simp
      moreover have "\<forall>x s''. s = x # s'' \<longrightarrow> (\<forall>y \<in> set (finditer r (x # p, s'')). Suc (length p) \<le> fst y)"
        using finditer_bounds by fastforce
      moreover have "\<forall>x s''. s = x # s'' \<longrightarrow> sorted_wrt (\<lambda>x y. snd x \<le> fst y) (finditer r (x # p, s''))"
        using "1.hyps"(3) [OF Some] c'eq False by auto
      ultimately show ?thesis
        using False Some c'eq
        by (auto simp: finditer.simps [of r p s] split: list.splits) fastforce
    qed
  qed
qed

lemma finditer_match:
  "(a, b) \<in> set (finditer r (p, s)) \<Longrightarrow>
     \<exists>c'. match_at r (cursor_at (rev p @ s) a) = Some c' \<and> length (fst c') = b"
proof (induction r "(p, s)" arbitrary: p s rule: finditer.induct)
  case (1 r p s)
  show ?case
  proof (cases "match_at r (p, s)")
    case None
    with "1.prems" obtain x s'' where "s = x # s''" "(a, b) \<in> set (finditer r (x # p, s''))"
      by (auto simp: finditer.simps [of r p s] split: list.splits)
    with "1.hyps"(1) [OF None] show ?thesis by simp
  next
    case (Some c')
    obtain p' s' where c'eq: "c' = (p', s')" by fastforce
    from Some c'eq have "advances (p, s) (p', s')" by (simp add: match_at_advances)
    then have same_text: "rev p' @ s' = rev p @ s" using advances_text by fastforce
    from "1.prems" Some c'eq consider
        "a = length p" "b = length p'"
      | "length s' < length s" "(a, b) \<in> set (finditer r (p', s'))"
      | x s'' where "\<not> length s' < length s" "s = x # s''" "(a, b) \<in> set (finditer r (x # p, s''))"
      by (auto simp: finditer.simps [of r p s] split: if_splits list.splits)
    then show ?thesis
    proof cases
      case 1
      with Some c'eq show ?thesis by (simp add: cursor_at_self)
    next
      case 2
      with "1.hyps"(2) [of p' s'] Some c'eq same_text show ?thesis by simp
    next
      case 3
      with "1.hyps"(3) [OF Some] c'eq show ?thesis by simp
    qed
  qed
qed

end
