(* ===== verification/Patterns.thy ===== *)
theory Patterns
  imports Regex
begin

text \<open>
  The pattern registry \<open>PATTERNS\<close> of \<open>src/utils.py\<close> (lines 9--18): a
  dictionary from the name of an entity kind to a regular expression.  The
  names form the closed set \<open>entity_kind\<close>; the dictionary is the list
  \<open>PATTERNS\<close> in its insertion order, which is the order in which
  \<open>mask_pii\<close> iterates over it.  Each pattern is transcribed operator by
  operator into the syntax of \<open>Regex\<close>; the comments give the source text.
  The lemmas show that the names are distinct and free of brackets (what
  makes the tags \<open>[name]\<close> unambiguous) and that no pattern matches the
  empty string.
\<close>

datatype entity_kind =
    FullName | Email | PhoneNumber | Dob | AadharNum | CreditDebitNo | CvvNo | ExpiryNo

text \<open>The dictionary key of each kind, as written in the source.\<close>

fun kind_name :: "entity_kind \<Rightarrow> string" where
  "kind_name FullName = ''full_name''"
| "kind_name Email = ''email''"
| "kind_name PhoneNumber = ''phone_number''"
| "kind_name Dob = ''dob''"
| "kind_name AadharNum = ''aadhar_num''"
| "kind_name CreditDebitNo = ''credit_debit_no''"
| "kind_name CvvNo = ''cvv_no''"
| "kind_name ExpiryNo = ''expiry_no''"

section \<open>Building blocks\<close>

abbreviation rplus :: "rx \<Rightarrow> rx" where
  "rplus r \<equiv> Rep r 1 None True"

abbreviation ropt :: "rx \<Rightarrow> rx" where
  "ropt r \<equiv> Rep r 0 (Some 1) True"

abbreviation ropt_lazy :: "rx \<Rightarrow> rx" where
  "ropt_lazy r \<equiv> Rep r 0 (Some 1) False"

abbreviation rdigits :: "nat \<Rightarrow> nat \<Rightarrow> rx" where
  "rdigits lo hi \<equiv> Rep (Cls [CDigit]) lo (Some hi) True"

abbreviation rupper :: rx where
  "rupper \<equiv> Cls [CRng CHR ''A'' CHR ''Z'']"

abbreviation rlower :: rx where
  "rlower \<equiv> Cls [CRng CHR ''a'' CHR ''z'']"

section \<open>The patterns\<close>

text \<open>\<^verbatim>\<open>([A-Z][a-z]+(?:\s[A-Z][a-z]+)+)\<close>\<close>

definition pat_full_name :: rx where
  "pat_full_name =
     rseq [rupper, rplus rlower, rplus (rseq [Cls [CSpace], rupper, rplus rlower])]"

text \<open>\<^verbatim>\<open>([a-zA-Z0-9_.+-]+@[a-zA-Z0-9-]+\.[a-zA-Z0-9-.]+)\<close>\<close>

definition pat_email :: rx where
  "pat_email =
     rseq [rplus (Cls [CRng CHR ''a'' CHR ''z'', CRng CHR ''A'' CHR ''Z'', CRng CHR ''0'' CHR ''9'',
                       CChr CHR ''_'', CChr CHR ''.'', CChr CHR ''+'', CChr CHR ''-'']),
           Lit CHR ''@'',
           rplus (Cls [CRng CHR ''a'' CHR ''z'', CRng CHR ''A'' CHR ''Z'', CRng CHR ''0'' CHR ''9'',
                       CChr CHR ''-'']),
           Lit CHR ''.'',
           rplus (Cls [CRng CHR ''a'' CHR ''z'', CRng CHR ''A'' CHR ''Z'', CRng CHR ''0'' CHR ''9'',
                       CChr CHR ''-'', CChr CHR ''.''])]"

text \<open>\<^verbatim>\<open>(\+?\d{1,3}[-.\s]??\d{1,4}[-.\s]??\d{3,4}[-.\s]??\d{3,4})\<close>\<close>

definition phone_sep :: rx where
  "phone_sep = ropt_lazy (Cls [CChr CHR ''-'', CChr CHR ''.'', CSpace])"

definition pat_phone_number :: rx where
  "pat_phone_number =
     rseq [ropt (Lit CHR ''+''), rdigits 1 3, phone_sep, rdigits 1 4, phone_sep,
           rdigits 3 4, phone_sep, rdigits 3 4]"

text \<open>\<^verbatim>\<open>(\b(?:0?[1-9]|[12][0-9]|3[01])[-/](?:0?[1-9]|1[012])[-/](?:19|20)\d{2}\b)\<close>\<close>

definition pat_dob :: rx where
  "pat_dob =
     rseq [Bnd,
           Alt (Cat (ropt (Lit CHR ''0'')) (Cls [CRng CHR ''1'' CHR ''9'']))
             (Alt (Cat (Cls [CChr CHR ''1'', CChr CHR ''2'']) (Cls [CRng CHR ''0'' CHR ''9'']))
                  (Cat (Lit CHR ''3'') (Cls [CChr CHR ''0'', CChr CHR ''1'']))),
           Cls [CChr CHR ''-'', CChr CHR ''/''],
           Alt (Cat (ropt (Lit CHR ''0'')) (Cls [CRng CHR ''1'' CHR ''9'']))
             (Cat (Lit CHR ''1'') (Cls [CChr CHR ''0'', CChr CHR ''1'', CChr CHR ''2''])),
           Cls [CChr CHR ''-'', CChr CHR ''/''],
           Alt (Cat (Lit CHR ''1'') (Lit CHR ''9'')) (Cat (Lit CHR ''2'') (Lit CHR ''0'')),
           rdigits 2 2, Bnd]"

text \<open>\<^verbatim>\<open>\b\d{4}\s?\d{4}\s?\d{4}\b\<close>\<close>

definition pat_aadhar_num :: rx where
  "pat_aadhar_num =
     rseq [Bnd, rdigits 4 4, ropt (Cls [CSpace]), rdigits 4 4, ropt (Cls [CSpace]), rdigits 4 4, Bnd]"

text \<open>\<^verbatim>\<open>\b(?:\d[ -]*?){13,16}\b\<close>\<close>

definition pat_credit_debit_no :: rx where
  "pat_credit_debit_no =
     rseq [Bnd,
           Rep (Cat (Cls [CDigit]) (Rep (Cls [CChr CHR '' '', CChr CHR ''-'']) 0 None False)) 13 (Some 16) True,
           Bnd]"

text \<open>\<^verbatim>\<open>\b\d{3,4}\b\<close>\<close>

definition pat_cvv_no :: rx where
  "pat_cvv_no = rseq [Bnd, rdigits 3 4, Bnd]"

text \<open>\<^verbatim>\<open>\b(0[1-9]|1[0-2])\/?([0-9]{2}|[0-9]{4})\b\<close>\<close>

definition pat_expiry_no :: rx where
  "pat_expiry_no =
     rseq [Bnd,
           Alt (Cat (Lit CHR ''0'') (Cls [CRng CHR ''1'' CHR ''9'']))
               (Cat (Lit CHR ''1'') (Cls [CRng CHR ''0'' CHR ''2''])),
           ropt (Lit CHR ''/''),
           Alt (Rep (Cls [CRng CHR ''0'' CHR ''9'']) 2 (Some 2) True)
               (Rep (Cls [CRng CHR ''0'' CHR ''9'']) 4 (Some 4) True),
           Bnd]"

section \<open>The registry\<close>

definition PATTERNS :: "(entity_kind \<times> rx) list" where
  "PATTERNS =
     [(FullName, pat_full_name), (Email, pat_email), (PhoneNumber, pat_phone_number),
      (Dob, pat_dob), (AadharNum, pat_aadhar_num), (CreditDebitNo, pat_credit_debit_no),
      (CvvNo, pat_cvv_no), (ExpiryNo, pat_expiry_no)]"

text \<open>The definitions that evaluate a pattern on a concrete text.\<close>

lemmas pattern_defs =
  pat_full_name_def pat_email_def phone_sep_def pat_phone_number_def pat_dob_def
  pat_aadhar_num_def pat_credit_debit_no_def pat_cvv_no_def pat_expiry_no_def PATTERNS_def

lemmas char_defs =
  is_digit_def is_space_def is_word_def py_ord_def word_next_def class_match_def


section \<open>Properties of the registry\<close>

lemma kind_name_inj: "kind_name k1 = kind_name k2 \<Longrightarrow> k1 = k2"
  by (cases k1; cases k2) simp_all

lemma kind_name_brackets: "CHR ''['' \<notin> set (kind_name k) \<and> CHR '']'' \<notin> set (kind_name k)"
  by (cases k) simp_all

lemma patterns_min_len: "(k, r) \<in> set PATTERNS \<Longrightarrow> 0 < min_len r"
  by (auto simp: pattern_defs)

lemma patterns_nonempty:
  "(k, r) \<in> set PATTERNS \<Longrightarrow> c' \<in> set (ends r c) \<Longrightarrow> length (snd c') < length (snd c)"
  using ends_consumes(1) [of c' r c] patterns_min_len [of k r] by (simp add: consumes_def)

end
