(* ===== verification/Scanner.thy ===== *)
theory Scanner
  imports Patterns
begin

text \<open>
  The scanner of \<open>mask_pii\<close> (\<open>src/utils.py\<close>, lines 31--36): every
  pattern of the registry is run with \<open>re.finditer\<close> over the whole text,
  in registry order, and each match becomes a candidate tuple
  \<open>(start, end, entity, match.group())\<close>, here the record \<open>cand\<close>.  The
  lemmas show that every candidate is a non-empty span inside the text whose
  recorded text is the text's slice, that it is the engine's match of its
  kind's pattern at its start, and that the candidates of one kind are
  ordered and do not overlap.
\<close>

record cand =
  m_start :: nat
  m_end :: nat
  m_kind :: entity_kind
  m_text :: string

text \<open>One \<open>re.finditer\<close> match as a candidate: \<open>match.group()\<close> is the slice
  of the searched text between the match's start and end.\<close>

definition mk_cand :: "string \<Rightarrow> entity_kind \<Rightarrow> nat \<times> nat \<Rightarrow> cand" where
  "mk_cand text entity m =
     \<lparr>m_start = fst m, m_end = snd m, m_kind = entity, m_text = slice text (fst m) (snd m)\<rparr>"

definition scan :: "string \<Rightarrow> cand list" where
  "scan text =
     concat (map (\<lambda>(entity, pattern). map (mk_cand text entity) (py_finditer pattern text)) PATTERNS)"

text \<open>A candidate is a well-formed span of \<open>text\<close>: inside it, and carrying
  its slice.\<close>

definition wf_cand :: "string \<Rightarrow> cand \<Rightarrow> bool" where
  "wf_cand text m \<longleftrightarrow>
     m_start m \<le> m_end m \<and> m_end m \<le> length text \<and> m_text m = slice text (m_start m) (m_end m)"

lemma mem_scan:
  "m \<in> set (scan text) \<longleftrightarrow>
     (\<exists>k r a b. (k, r) \<in> set PATTERNS \<and> (a, b) \<in> set (py_finditer r text) \<and> m = mk_cand text k (a, b))"
  by (auto simp: scan_def)

text \<open>Each match of a registry pattern reported by \<open>finditer\<close> is a
  non-empty span inside the text.\<close>

lemma registry_finditer_span:
  assumes "(k, r) \<in> set PATTERNS" and "(a, b) \<in> set (py_finditer r text)"
  shows "a < b \<and> b \<le> length text"
proof -
  from assms(2) obtain c' where m: "match_at r (cursor_at text a) = Some c'" and b: "length (fst c') = b"
    using finditer_match [of a b r "[]" "text"] by (auto simp: py_finditer_def)
  from assms(2) have a: "a \<le> length text"
    using finditer_bounds [of a b r "[]" "text"] by (simp add: py_finditer_def)
  from m have "c' \<in> set (ends r (cursor_at text a))" by (rule match_at_in_ends)
  with assms(1) have shorter: "length (snd c') < length (drop a text)"
    using patterns_nonempty by (fastforce simp: cursor_at_def)
  from m have "advances (cursor_at text a) c'" by (rule match_at_advances)
  then have "length (drop a text) = length (snd c') + (b - a) \<and> a \<le> b"
    using advances_length [of "cursor_at text a" "c'"] a b by (simp add: cursor_at_def min_def split: if_splits)
  with shorter a show ?thesis by auto
qed

lemma scan_wf: "m \<in> set (scan text) \<Longrightarrow> wf_cand text m \<and> m_start m < m_end m"
  using registry_finditer_span by (fastforce simp: mem_scan wf_cand_def mk_cand_def)

text \<open>Each candidate is the match the engine reports at its start.\<close>

lemma scan_match:
  assumes "m \<in> set (scan text)"
  shows "\<exists>r c'. (m_kind m, r) \<in> set PATTERNS \<and> match_at r (cursor_at text (m_start m)) = Some c'
           \<and> length (fst c') = m_end m"
  using assms finditer_match [of _ _ _ "[]" "text"] by (fastforce simp: mem_scan mk_cand_def py_finditer_def)


lemma mk_cand_sorted:
  "sorted_wrt (\<lambda>x y. m_end x \<le> m_start y) (map (mk_cand text k) (py_finditer r text))"
  using finditer_sorted [of r "[]" "text"]
  by (simp add: py_finditer_def sorted_wrt_map mk_cand_def)

section \<open>Properties of \<open>scan\<close>\<close>

text \<open>C11. Every candidate is a non-empty span inside the text whose recorded
  text, \<open>match.group()\<close>, is the text between its offsets.\<close>

theorem scan_candidates_wf:
  "list_all (\<lambda>m. m_start m < m_end m \<and> m_end m \<le> length text
                 \<and> m_text m = slice text (m_start m) (m_end m)) (scan text)"
  using scan_wf by (fastforce simp: list_all_iff wf_cand_def)

text \<open>C12. Every candidate is the match that the regex engine reports for
  its kind's pattern at its start offset.\<close>

theorem scan_candidate_is_match:
  assumes "m \<in> set (scan text)"
  shows "\<exists>r c'. (m_kind m, r) \<in> set PATTERNS \<and> match_at r (cursor_at text (m_start m)) = Some c'
           \<and> length (fst c') = m_end m"
  using assms finditer_match [of _ _ _ "[]" "text"]
  by (fastforce simp: mem_scan mk_cand_def py_finditer_def)

lemma scan_candidate_is_match_witness:
  "\<lparr>m_start = 0, m_end = 3, m_kind = CvvNo, m_text = ''123''\<rparr> \<in> set (scan ''123'')
   \<and> (\<exists>r c'. (CvvNo, r) \<in> set PATTERNS \<and> match_at r (cursor_at ''123'' 0) = Some c' \<and> length (fst c') = 3)"
proof -
  have ev: "scan ''123'' = [\<lparr>m_start = 0, m_end = 3, m_kind = CvvNo, m_text = ''123''\<rparr>]"
    by (simp add: scan_def py_finditer_def finditer.simps match_at_def rep.simps pattern_defs char_defs
        mk_cand_def slice_def)
  have h: "\<lparr>m_start = 0, m_end = 3, m_kind = CvvNo, m_text = ''123''\<rparr> \<in> set (scan ''123'')"
    by (simp add: ev)
  from scan_candidate_is_match [OF h] h show ?thesis by simp
qed

text \<open>C13. The candidates of one kind are in text order and do not overlap,
  as \<open>re.finditer\<close> reports non-overlapping matches from left to right.\<close>

theorem scan_kind_non_overlapping:
  "sorted_wrt (\<lambda>x y. m_end x \<le> m_start y) (filter (\<lambda>c. m_kind c = k) (scan text))"
proof -
  have kind: "m_kind (mk_cand text k' x) = k'" for k' x by (simp add: mk_cand_def)
  show ?thesis
    by (cases k) (simp_all add: scan_def PATTERNS_def filter_map o_def kind mk_cand_sorted)
qed

end
