(* ===== verification/Resolver.thy ===== *)
theory Resolver
  imports Scanner "HOL-Library.Sublist" "HOL-Library.Multiset"
begin

text \<open>
  Conflict resolution in \<open>mask_pii\<close> (\<open>src/utils.py\<close>, lines 38--47).
  The candidates are sorted by start offset with Python's stable
  \<open>sorted\<close> (\<open>sort_matches\<close>), then a loop keeps a candidate when it starts
  at or after the end of the last kept one, \<open>prev_end\<close> starting at \<open>-1\<close>
  (\<open>filter_step\<close>, \<open>filter_overlaps\<close>: the loop as a fold over the pair
  \<open>(filtered_matches, prev_end)\<close>).  \<open>greedy\<close> is the same selection
  written as a recursive function; it is the reference the lemmas reason
  about.  The lemmas show that the loop computes \<open>greedy\<close>, that the result
  is sorted, non-overlapping and a subsequence of the sorted candidates,
  that every dropped candidate starts inside a kept one, and which
  candidate wins a tie.
\<close>

text \<open>\<open>sorted(matches, key=lambda x: x[0])\<close>: a stable sort by start offset.
  \<open>sort_key\<close> is insertion sort, which is stable; a stable sort's result is
  unique (the library's \<open>properties_for_sort_key\<close>), so it computes what
  Timsort computes.\<close>

definition sort_matches :: "cand list \<Rightarrow> cand list" where
  "sort_matches matches = sort_key m_start matches"

text \<open>One iteration of the loop over \<open>matches\<close>.\<close>

definition filter_step :: "cand \<Rightarrow> cand list \<times> int \<Rightarrow> cand list \<times> int" where
  "filter_step m st =
     (let (filtered_matches, prev_end) = st
      in if prev_end \<le> int (m_start m) then (filtered_matches @ [m], int (m_end m))
         else (filtered_matches, prev_end))"

definition filter_overlaps :: "cand list \<Rightarrow> cand list" where
  "filter_overlaps matches = fst (fold filter_step matches ([], -1))"

definition resolve :: "cand list \<Rightarrow> cand list" where
  "resolve matches = filter_overlaps (sort_matches matches)"

text \<open>The reference: greedy earliest-start selection, recursively.\<close>

fun greedy :: "int \<Rightarrow> cand list \<Rightarrow> cand list" where
  "greedy prev_end [] = []"
| "greedy prev_end (m # ms) =
     (if prev_end \<le> int (m_start m) then m # greedy (int (m_end m)) ms
      else greedy prev_end ms)"

text \<open>Adjacent spans do not overlap.\<close>

fun non_overlapping :: "cand list \<Rightarrow> bool" where
  "non_overlapping (a # b # ms) \<longleftrightarrow> m_end a \<le> m_start b \<and> non_overlapping (b # ms)"
| "non_overlapping _ \<longleftrightarrow> True"

section \<open>The loop computes the reference\<close>

lemma fold_filter_step:
  "fold filter_step ms (acc, prev_end) =
     (acc @ greedy prev_end ms, (case greedy prev_end ms of [] \<Rightarrow> prev_end | _ \<Rightarrow> int (m_end (last (greedy prev_end ms)))))"
  by (induction ms arbitrary: acc prev_end) (auto simp: filter_step_def split: list.splits)

lemma filter_overlaps_greedy: "filter_overlaps ms = greedy (-1) ms"
  by (simp add: filter_overlaps_def fold_filter_step)

section \<open>Shape of the result\<close>

lemma greedy_subseq: "subseq (greedy prev_end ms) ms"
  by (induction ms arbitrary: prev_end) auto

lemma set_greedy: "set (greedy prev_end ms) \<subseteq> set ms"
  by (induction ms arbitrary: prev_end) auto

lemma greedy_hd_start: "greedy prev_end ms = k # ks \<Longrightarrow> prev_end \<le> int (m_start k)"
  by (induction ms arbitrary: prev_end) (auto split: if_splits)

lemma greedy_non_overlapping: "non_overlapping (greedy prev_end ms)"
proof (induction ms arbitrary: prev_end)
  case (Cons m ms)
  show ?case
  proof (cases "greedy (int (m_end m)) ms")
    case (Cons k ks)
    then have "int (m_end m) \<le> int (m_start k)" by (rule greedy_hd_start)
    with Cons Cons.IH [of "int (m_end m)"] Cons.IH [of prev_end] show ?thesis by simp
  qed (use Cons.IH in simp)
qed simp

lemma sorted_greedy: "sorted (map m_start ms) \<Longrightarrow> sorted (map m_start (greedy prev_end ms))"
proof (induction ms arbitrary: prev_end)
  case (Cons m ms)
  then show ?case using set_greedy by fastforce
qed simp

section \<open>Dropped candidates\<close>

lemma greedy_dropped:
  assumes "sorted (map m_start ms)" and "m \<in> set ms" and "m \<notin> set (greedy prev_end ms)"
  shows "int (m_start m) < prev_end \<or>
         (\<exists>k \<in> set (greedy prev_end ms). m_start k \<le> m_start m \<and> m_start m < m_end k)"
  using assms
proof (induction ms arbitrary: prev_end)
  case (Cons x ms)
  show ?case
  proof (cases "prev_end \<le> int (m_start x)")
    case True
    with Cons.prems have m: "m \<in> set ms" "m \<notin> set (greedy (int (m_end x)) ms)" by auto
    from Cons.prems(1) m(1) have "m_start x \<le> m_start m" by simp
    with Cons.IH [of "int (m_end x)"] m Cons.prems(1) True show ?thesis by auto
  next
    case False
    with Cons.prems Cons.IH [of prev_end] show ?thesis by auto
  qed
qed simp


lemma resolve_subset: "set (resolve ms) \<subseteq> set ms"
  using set_greedy [of "-1" "sort_key m_start ms"]
  by (simp add: resolve_def sort_matches_def filter_overlaps_greedy)

lemma resolve_non_overlapping_greedy: "non_overlapping (greedy (-1) (sort_key m_start ms))"
  by (rule greedy_non_overlapping)

section \<open>Ties\<close>

lemma greedy_starts:
  "\<forall>c \<in> set ms. m_start c \<le> m_end c \<Longrightarrow> k \<in> set (greedy prev_end ms) \<Longrightarrow> prev_end \<le> int (m_start k)"
proof (induction ms arbitrary: prev_end)
  case (Cons x ms)
  show ?case
  proof (cases "prev_end \<le> int (m_start x)")
    case True
    with Cons show ?thesis by (force dest: Cons.IH [of "int (m_end x)"])
  next
    case False
    with Cons show ?thesis by simp
  qed
qed simp

lemma greedy_first_of_start:
  assumes "sorted (map m_start ms)" and "\<forall>c \<in> set ms. m_start c < m_end c"
    and "k \<in> set (greedy prev_end ms)"
  shows "k = hd (filter (\<lambda>c. m_start c = m_start k) ms)"
  using assms
proof (induction ms arbitrary: prev_end)
  case (Cons x ms)
  show ?case
  proof (cases "prev_end \<le> int (m_start x)")
    case True
    show ?thesis
    proof (cases "k = x")
      case False
      with True Cons.prems have k: "k \<in> set (greedy (int (m_end x)) ms)" by simp
      with Cons.prems have "int (m_end x) \<le> int (m_start k)"
        by (intro greedy_starts [of ms]) auto
      with Cons.prems(2) have "m_start x \<noteq> m_start k" by auto
      with Cons.IH [OF _ _ k] Cons.prems(1,2) show ?thesis by simp
    qed simp
  next
    case False
    with Cons.prems have k: "k \<in> set (greedy prev_end ms)" by simp
    with Cons.prems have "prev_end \<le> int (m_start k)"
      by (intro greedy_starts [of ms]) auto
    with False have "m_start x \<noteq> m_start k" by auto
    with Cons.IH [OF _ _ k] Cons.prems(1,2) show ?thesis by simp
  qed
qed simp

section \<open>Properties of \<open>resolve\<close>\<close>

text \<open>C3. The kept spans do not overlap: each ends at or before the start of
  the next one.\<close>

theorem resolve_non_overlapping: "non_overlapping (resolve ms)"
  by (simp add: resolve_def filter_overlaps_greedy greedy_non_overlapping)

text \<open>C4. The kept spans are in ascending order of start offset.\<close>

theorem resolve_sorted: "sorted (map m_start (resolve ms))"
  by (simp add: resolve_def sort_matches_def filter_overlaps_greedy sorted_greedy)

text \<open>C8. The loop of lines 42--47 over the stably sorted candidates computes
  greedy earliest-start selection from the sentinel \<open>-1\<close>.\<close>

theorem resolve_is_greedy: "resolve ms = greedy (-1) (sort_key m_start ms)"
  by (simp add: resolve_def sort_matches_def filter_overlaps_greedy)

text \<open>C9. Every candidate that is dropped starts inside a kept span that
  starts no later than it does.\<close>

theorem resolve_dropped_overlaps:
  assumes "m \<in> set ms" and "m \<notin> set (resolve ms)"
  shows "\<exists>k \<in> set (resolve ms). m_start k \<le> m_start m \<and> m_start m < m_end k"
  using greedy_dropped [where ms = "sort_key m_start ms" and m = m and prev_end = "-1"] assms
  by (simp add: resolve_def sort_matches_def filter_overlaps_greedy)

lemma resolve_dropped_overlaps_witness:
  "\<lparr>m_start = 0, m_end = 16, m_kind = CreditDebitNo, m_text = ''b''\<rparr>
     \<in> set [\<lparr>m_start = 0, m_end = 15, m_kind = PhoneNumber, m_text = ''a''\<rparr>,
            \<lparr>m_start = 0, m_end = 16, m_kind = CreditDebitNo, m_text = ''b''\<rparr>]
   \<and> \<lparr>m_start = 0, m_end = 16, m_kind = CreditDebitNo, m_text = ''b''\<rparr>
     \<notin> set (resolve [\<lparr>m_start = 0, m_end = 15, m_kind = PhoneNumber, m_text = ''a''\<rparr>,
            \<lparr>m_start = 0, m_end = 16, m_kind = CreditDebitNo, m_text = ''b''\<rparr>])
   \<and> (\<exists>k \<in> set (resolve [\<lparr>m_start = 0, m_end = 15, m_kind = PhoneNumber, m_text = ''a''\<rparr>,
            \<lparr>m_start = 0, m_end = 16, m_kind = CreditDebitNo, m_text = ''b''\<rparr>]).
        m_start k \<le> 0 \<and> 0 < m_end k)"
proof -
  let ?a = "\<lparr>m_start = 0, m_end = 15, m_kind = PhoneNumber, m_text = ''a''\<rparr>"
  let ?b = "\<lparr>m_start = 0, m_end = 16, m_kind = CreditDebitNo, m_text = ''b''\<rparr>"
  have r: "resolve [?a, ?b] = [?a]"
    by (simp add: resolve_def sort_matches_def filter_overlaps_def filter_step_def)
  have h1: "?b \<in> set [?a, ?b]" by simp
  have h2: "?b \<notin> set (resolve [?a, ?b])" by (simp add: r)
  from resolve_dropped_overlaps [OF h1 h2] h1 h2 show ?thesis by simp
qed

text \<open>C10. Ties are broken by enumeration order: when candidates are
  non-empty spans, a kept span is the first candidate, in the order the
  scanner produced them, that starts where it starts.\<close>

theorem resolve_tie_first:
  assumes "\<forall>c \<in> set ms. m_start c < m_end c" and "k \<in> set (resolve ms)"
  shows "k = hd (filter (\<lambda>c. m_start c = m_start k) ms)"
proof -
  from assms have "k = hd (filter (\<lambda>c. m_start c = m_start k) (sort_key m_start ms))"
    by (intro greedy_first_of_start [where prev_end = "-1"])
       (simp_all add: resolve_def sort_matches_def filter_overlaps_greedy)
  then show ?thesis by (simp add: sort_key_stable)
qed

lemma resolve_tie_first_witness:
  "list_all (\<lambda>c. m_start c < m_end c) [\<lparr>m_start = 0, m_end = 15, m_kind = PhoneNumber, m_text = ''a''\<rparr>,
              \<lparr>m_start = 0, m_end = 16, m_kind = CreditDebitNo, m_text = ''b''\<rparr>]
   \<and> \<lparr>m_start = 0, m_end = 15, m_kind = PhoneNumber, m_text = ''a''\<rparr>
       \<in> set (resolve [\<lparr>m_start = 0, m_end = 15, m_kind = PhoneNumber, m_text = ''a''\<rparr>,
              \<lparr>m_start = 0, m_end = 16, m_kind = CreditDebitNo, m_text = ''b''\<rparr>])
   \<and> \<lparr>m_start = 0, m_end = 15, m_kind = PhoneNumber, m_text = ''a''\<rparr>
       = hd (filter (\<lambda>c. m_start c = 0) [\<lparr>m_start = 0, m_end = 15, m_kind = PhoneNumber, m_text = ''a''\<rparr>,
              \<lparr>m_start = 0, m_end = 16, m_kind = CreditDebitNo, m_text = ''b''\<rparr>])"
proof -
  let ?a = "\<lparr>m_start = 0, m_end = 15, m_kind = PhoneNumber, m_text = ''a''\<rparr>"
  let ?b = "\<lparr>m_start = 0, m_end = 16, m_kind = CreditDebitNo, m_text = ''b''\<rparr>"
  have r: "resolve [?a, ?b] = [?a]"
    by (simp add: resolve_def sort_matches_def filter_overlaps_def filter_step_def)
  have h1: "\<forall>c \<in> set [?a, ?b]. m_start c < m_end c" by simp
  have h2: "?a \<in> set (resolve [?a, ?b])" by (simp add: r)
  from resolve_tie_first [OF h1 h2] h1 h2 show ?thesis by simp
qed

end
