(* ===== verification/Masker.thy ===== *)
theory Masker
  imports Resolver
begin

text \<open>
  The masking half of \<open>mask_pii\<close> (\<open>src/utils.py\<close>, lines 49--61).  The
  kept spans are visited from the rightmost to the leftmost; each one adds a
  record \<open>{"position": [start, end], "classification": entity, "entity":
  original}\<close> (\<open>masked_entity\<close>) and replaces its offsets of the text by the
  tag \<open>[entity]\<close>; finally the records are reversed.  \<open>render\<close> is the
  reference: the text written left to right as the gaps between the spans
  and the tags.  The lemmas show that the right-to-left rewriting computes
  \<open>render\<close> whenever the spans are in bounds and do not overlap (which
  resolution guarantees), and that the records come out in left-to-right
  order with the original offsets and text.
\<close>

record masked_entity =
  position :: "int list"
  classification :: string
  entity :: string

text \<open>\<open>f"[{entity}]"\<close>\<close>

definition tag_of :: "string \<Rightarrow> string" where
  "tag_of name = ''['' @ name @ '']''"

text \<open>The record of lines 51--55.\<close>

definition entity_record :: "cand \<Rightarrow> masked_entity" where
  "entity_record m =
     \<lparr>position = [int (m_start m), int (m_end m)], classification = kind_name (m_kind m),
      entity = m_text m\<rparr>"

text \<open>One iteration of the loop of lines 50--56 on \<open>(masked_text, masked_entities)\<close>.\<close>

definition mask_step :: "cand \<Rightarrow> string \<times> masked_entity list \<Rightarrow> string \<times> masked_entity list" where
  "mask_step m st =
     (let (masked_text, masked_entities) = st;
          masked_entities' = masked_entities @ [entity_record m]
      in (take (m_start m) masked_text @ tag_of (kind_name (m_kind m)) @ drop (m_end m) masked_text,
          masked_entities'))"

text \<open>Lines 49--61: the loop over \<open>reversed(filtered_matches)\<close>, then
  \<open>masked_entities.reverse()\<close>.\<close>

definition mask_spans :: "string \<Rightarrow> cand list \<Rightarrow> string \<times> masked_entity list" where
  "mask_spans text filtered_matches =
     (let (masked_text, masked_entities) = fold mask_step (rev filtered_matches) (text, [])
      in (masked_text, rev masked_entities))"

text \<open>\<open>mask_pii\<close>, lines 20--61: scan, resolve, mask.\<close>

definition mask_pii :: "string \<Rightarrow> string \<times> masked_entity list" where
  "mask_pii text = mask_spans text (resolve (scan text))"

text \<open>The reference: from offset \<open>pos\<close> on, the gaps of the text and the tags
  of the spans, left to right.\<close>

fun render :: "string \<Rightarrow> nat \<Rightarrow> cand list \<Rightarrow> string" where
  "render t pos [] = drop pos t"
| "render t pos (m # ms) = slice t pos (m_start m) @ tag_of (kind_name (m_kind m)) @ render t (m_end m) ms"

text \<open>The spans lie in the text, in order, and do not overlap.\<close>

definition spans_ok :: "string \<Rightarrow> cand list \<Rightarrow> bool" where
  "spans_ok t ms \<longleftrightarrow> non_overlapping ms \<and> (\<forall>m \<in> set ms. m_start m \<le> m_end m \<and> m_end m \<le> length t)"

section \<open>Right-to-left rewriting computes the left-to-right rendering\<close>

lemma spans_ok_Cons:
  "spans_ok t (m # ms) \<longleftrightarrow>
     m_start m \<le> m_end m \<and> m_end m \<le> length t \<and> spans_ok t ms \<and>
     (case ms of [] \<Rightarrow> True | k # _ \<Rightarrow> m_end m \<le> m_start k)"
  by (cases ms) (auto simp: spans_ok_def)

lemma mask_step_fst:
  "fst (mask_step m st) = take (m_start m) (fst st) @ tag_of (kind_name (m_kind m)) @ drop (m_end m) (fst st)"
  by (simp add: mask_step_def case_prod_unfold)

lemma mask_step_snd: "snd (mask_step m st) = snd st @ [entity_record m]"
  by (simp add: mask_step_def case_prod_unfold)

lemma foldr_mask_step_text:
  assumes "spans_ok t ms" and "case ms of [] \<Rightarrow> True | k # _ \<Rightarrow> p \<le> m_start k"
  shows "fst (foldr mask_step ms (t, es)) = take p t @ render t p ms"
  using assms
proof (induction ms arbitrary: p)
  case Nil
  then show ?case by simp
next
  case (Cons m ms)
  from Cons.prems(1) have m: "m_start m \<le> m_end m" "m_end m \<le> length t" and ok: "spans_ok t ms"
    and next_ok: "case ms of [] \<Rightarrow> True | k # _ \<Rightarrow> m_end m \<le> m_start k"
    by (simp_all add: spans_ok_Cons)
  from Cons.prems(2) have p: "p \<le> m_start m" by simp
  let ?R = "render t (m_end m) ms"
  have IH: "fst (foldr mask_step ms (t, es)) = take (m_end m) t @ ?R"
    using Cons.IH [OF ok next_ok] .
  have "fst (foldr mask_step (m # ms) (t, es))
        = take (m_start m) (take (m_end m) t @ ?R) @ tag_of (kind_name (m_kind m))
            @ drop (m_end m) (take (m_end m) t @ ?R)"
    by (simp only: foldr.simps o_apply mask_step_fst IH)
  also have "\<dots> = take (m_start m) t @ tag_of (kind_name (m_kind m)) @ ?R"
    using m by (simp add: min_def)
  also have "\<dots> = take p t @ render t p (m # ms)"
    using p by (simp flip: take_slice_concat [OF p])
  finally show ?case .
qed

lemma foldr_mask_step_records:
  "snd (foldr mask_step ms (t, es)) = es @ rev (map entity_record ms)"
  by (induction ms) (simp_all add: mask_step_snd)

lemma mask_spans_eq:
  assumes "spans_ok t ms"
  shows "mask_spans t ms = (render t 0 ms, map entity_record ms)"
proof -
  have "fst (foldr mask_step ms (t, [])) = take 0 t @ render t 0 ms"
    by (rule foldr_mask_step_text) (use assms in \<open>simp_all split: list.splits\<close>)
  moreover have "snd (foldr mask_step ms (t, [])) = rev (map entity_record ms)"
    by (simp add: foldr_mask_step_records)
  ultimately show ?thesis
    by (simp add: mask_spans_def foldr_conv_fold [symmetric] case_prod_unfold)
qed

lemma resolve_scan_ok: "spans_ok t (resolve (scan t))"
  using resolve_non_overlapping_greedy resolve_subset scan_wf
  by (fastforce simp: spans_ok_def resolve_def sort_matches_def filter_overlaps_greedy wf_cand_def)


text \<open>Length accounting of the rendering: every span's characters are
  replaced by its tag's.\<close>

lemma render_length:
  "spans_ok t ms \<Longrightarrow> (case ms of [] \<Rightarrow> True | k # _ \<Rightarrow> p \<le> m_start k) \<Longrightarrow>
   length (render t p ms) + sum_list (map (\<lambda>m. m_end m - m_start m) ms)
     = length t - p + sum_list (map (\<lambda>m. length (tag_of (kind_name (m_kind m)))) ms)"
proof (induction ms arbitrary: p)
  case (Cons m ms)
  then have m: "p \<le> m_start m" "m_start m \<le> m_end m" "m_end m \<le> length t"
    and rest: "spans_ok t ms" "case ms of [] \<Rightarrow> True | k # _ \<Rightarrow> m_end m \<le> m_start k"
    by (simp_all add: spans_ok_Cons)
  from Cons.IH [OF rest] m show ?case by simp
qed simp

section \<open>Properties of \<open>mask_pii\<close>\<close>

lemma mask_pii_eq:
  "mask_pii t = (render t 0 (resolve (scan t)), map entity_record (resolve (scan t)))"
  by (simp add: mask_pii_def mask_spans_eq resolve_scan_ok)

text \<open>C1. \<open>mask_pii\<close> returns the text rendered left to right with every kept
  span replaced by its tag, and one record per kept span in left-to-right
  order.\<close>

theorem mask_pii_spec:
  "mask_pii t = (render t 0 (resolve (scan t)), map entity_record (resolve (scan t)))"
  by (rule mask_pii_eq)

text \<open>C7. Rewriting from the rightmost span to the leftmost keeps the offsets
  of the spans still to be rewritten valid: for spans inside the text that do
  not overlap, the loop of lines 50--56 produces the left-to-right
  rendering and the records in left-to-right order.\<close>

theorem mask_spans_correct:
  assumes "non_overlapping ms" and "\<forall>m \<in> set ms. m_start m \<le> m_end m \<and> m_end m \<le> length t"
  shows "mask_spans t ms = (render t 0 ms, map entity_record ms)"
  using assms by (simp add: mask_spans_eq spans_ok_def)

lemma mask_spans_correct_witness:
  "non_overlapping [\<lparr>m_start = 0, m_end = 2, m_kind = CvvNo, m_text = ''ab''\<rparr>,
                    \<lparr>m_start = 3, m_end = 5, m_kind = Email, m_text = ''de''\<rparr>]
   \<and> list_all (\<lambda>m. m_start m \<le> m_end m \<and> m_end m \<le> length ''abcdef'')
       [\<lparr>m_start = 0, m_end = 2, m_kind = CvvNo, m_text = ''ab''\<rparr>,
        \<lparr>m_start = 3, m_end = 5, m_kind = Email, m_text = ''de''\<rparr>]
   \<and> fst (mask_spans ''abcdef'' [\<lparr>m_start = 0, m_end = 2, m_kind = CvvNo, m_text = ''ab''\<rparr>,
                    \<lparr>m_start = 3, m_end = 5, m_kind = Email, m_text = ''de''\<rparr>]) = ''[cvv_no]c[email]f''"
proof -
  let ?ms = "[\<lparr>m_start = 0, m_end = 2, m_kind = CvvNo, m_text = ''ab''\<rparr>,
              \<lparr>m_start = 3, m_end = 5, m_kind = Email, m_text = ''de''\<rparr>]"
  have h1: "non_overlapping ?ms" by simp
  have h2: "\<forall>m \<in> set ?ms. m_start m \<le> m_end m \<and> m_end m \<le> length ''abcdef''" by simp
  show ?thesis
    using mask_spans_correct [OF h1 h2] h1 h2 by (simp add: tag_of_def slice_def)
qed

text \<open>C5. The records are returned in ascending order of their start
  offset.\<close>

theorem mask_pii_records_sorted: "sorted (map (\<lambda>e. hd (position e)) (snd (mask_pii t)))"
proof -
  have "sorted (map m_start (resolve (scan t)))"
    by (simp add: resolve_def sort_matches_def filter_overlaps_greedy sorted_greedy)
  then show ?thesis
    by (simp add: mask_pii_eq entity_record_def o_def sorted_map)
qed

text \<open>C6. Every record holds the original offsets of a non-empty span of the
  input, the input's text between them, and the name of an entity kind: the
  information needed to reverse the mask.\<close>

theorem mask_pii_entities:
  assumes "e \<in> set (snd (mask_pii t))"
  shows "\<exists>s f k. position e = [int s, int f] \<and> s < f \<and> f \<le> length t
           \<and> entity e = slice t s f \<and> classification e = kind_name k"
proof -
  from assms obtain m where m: "m \<in> set (resolve (scan t))" and e: "e = entity_record m"
    by (auto simp: mask_pii_eq)
  from m have "m \<in> set (scan t)" using resolve_subset by blast
  then have "wf_cand t m \<and> m_start m < m_end m" by (rule scan_wf)
  with e show ?thesis by (auto simp: entity_record_def wf_cand_def)
qed

text \<open>C18. When no pattern matches, the text is returned unchanged with no
  records.\<close>

theorem mask_pii_no_match: "scan t = [] \<Longrightarrow> mask_pii t = (t, [])"
  by (simp add: mask_pii_eq resolve_def sort_matches_def filter_overlaps_def)

lemma mask_pii_no_match_witness: "scan ''hi'' = [] \<and> mask_pii ''hi'' = (''hi'', [])"
proof -
  have h: "scan ''hi'' = []"
    by (simp add: scan_def py_finditer_def finditer.simps match_at_def rep.simps pattern_defs char_defs)
  from mask_pii_no_match [OF h] h show ?thesis by simp
qed


text \<open>C19. Length accounting of the masked text: it is the input with the
  characters of every recorded entity taken out and the characters of its
  tag put in, so nothing else is lost or duplicated.\<close>

theorem mask_pii_length:
  "length (fst (mask_pii t)) + sum_list (map (\<lambda>e. length (entity e)) (snd (mask_pii t)))
     = length t + sum_list (map (\<lambda>e. length (tag_of (classification e))) (snd (mask_pii t)))"
proof -
  let ?ms = "resolve (scan t)"
  have ok: "spans_ok t ?ms" by (rule resolve_scan_ok)
  have "m \<in> set ?ms \<Longrightarrow> length (m_text m) = m_end m - m_start m" for m
    using resolve_subset scan_wf by (fastforce simp: wf_cand_def)
  then have ents: "map (\<lambda>e. length (entity e)) (map entity_record ?ms) = map (\<lambda>m. m_end m - m_start m) ?ms"
    by (simp add: entity_record_def)
  have tags: "map (\<lambda>e. length (tag_of (classification e))) (map entity_record ?ms)
      = map (\<lambda>m. length (tag_of (kind_name (m_kind m)))) ?ms"
    by (simp add: entity_record_def)
  have start: "case ?ms of [] \<Rightarrow> True | k # _ \<Rightarrow> 0 \<le> m_start k" by (simp split: list.splits)
  show ?thesis
    unfolding mask_pii_eq fst_conv snd_conv ents tags using render_length [OF ok start] by simp
qed

text \<open>The equations that evaluate \<open>mask_pii\<close> on a concrete text.\<close>

lemmas mask_eval_simps =
  mask_pii_eq scan_def py_finditer_def finditer.simps match_at_def rep.simps pattern_defs char_defs
  resolve_def sort_matches_def filter_overlaps_def filter_step_def mk_cand_def slice_def
  entity_record_def tag_of_def

lemma mask_pii_entities_witness:
  "\<lparr>position = [5, 15], classification = ''phone_number'', entity = ''9876543210''\<rparr>
     \<in> set (snd (mask_pii ''Call 9876543210.''))
   \<and> (\<exists>s f k. [5, 15] = [int s, int f] \<and> s < f \<and> f \<le> length ''Call 9876543210.''
        \<and> ''9876543210'' = slice ''Call 9876543210.'' s f \<and> ''phone_number'' = kind_name k)"
proof -
  have ev: "mask_pii ''Call 9876543210.'' =
      (''Call [phone_number].'', [\<lparr>position = [5, 15], classification = ''phone_number'', entity = ''9876543210''\<rparr>])"
    by (simp add: mask_eval_simps)
  have h: "\<lparr>position = [5, 15], classification = ''phone_number'', entity = ''9876543210''\<rparr>
      \<in> set (snd (mask_pii ''Call 9876543210.''))"
    by (simp add: ev)
  from mask_pii_entities [OF h] h show ?thesis by simp
qed

end
