(* ===== verification/Demasker.thy ===== *)
theory Demasker
  imports Masker
begin

text \<open>
  \<open>demask_pii\<close> (\<open>src/utils.py\<close>, lines 63--78).  The records are visited
  in reverse; for each, \<open>start, end = entity_info["position"]\<close> raises
  \<open>ValueError\<close> unless the position has exactly two elements; the tag
  \<open>[classification]\<close> is searched from the beginning of the current text
  with \<open>str.find\<close> and, when found, its first occurrence is replaced by the
  recorded original text; when not found the record is skipped.  The
  lemmas give the error behaviour, the silent skip, the independence of the
  result from the recorded offsets, and the round trip: a text without
  \<open>[\<close> whose kept spans have pairwise distinct kinds is restored exactly,
  while two records of one kind are restored into each other's places.
\<close>

text \<open>One iteration of the loop of lines 69--77.\<close>

definition demask_step :: "masked_entity \<Rightarrow> string \<Rightarrow> py_error + string" where
  "demask_step entity_info demasked_text =
     (case position entity_info of
        [start, end_] \<Rightarrow>
          (let tag = tag_of (classification entity_info);
               original = entity entity_info;
               tag_pos = py_find demasked_text tag
           in if tag_pos \<noteq> -1
              then Inr (take (nat tag_pos) demasked_text @ original
                          @ drop (nat tag_pos + length tag) demasked_text)
              else Inr demasked_text)
      | _ \<Rightarrow> Inl ValueError)"

text \<open>The loop; an exception ends it.\<close>

fun demask_loop :: "masked_entity list \<Rightarrow> string \<Rightarrow> py_error + string" where
  "demask_loop [] demasked_text = Inr demasked_text"
| "demask_loop (e # es) demasked_text =
     (case demask_step e demasked_text of
        Inl err \<Rightarrow> Inl err
      | Inr demasked_text' \<Rightarrow> demask_loop es demasked_text')"

definition demask_pii :: "string \<Rightarrow> masked_entity list \<Rightarrow> py_error + string" where
  "demask_pii masked_text masked_entities = demask_loop (rev masked_entities) masked_text"

text \<open>The rendering of \<open>Masker.render\<close> without the text after the last
  span, and the offset where that text starts.\<close>

fun render_pre :: "string \<Rightarrow> nat \<Rightarrow> cand list \<Rightarrow> string" where
  "render_pre t pos [] = []"
| "render_pre t pos (m # ms) = slice t pos (m_start m) @ tag_of (kind_name (m_kind m)) @ render_pre t (m_end m) ms"

fun last_end :: "nat \<Rightarrow> cand list \<Rightarrow> nat" where
  "last_end pos [] = pos"
| "last_end pos (m # ms) = last_end (m_end m) ms"

section \<open>Splitting the rendering at its last span\<close>

lemma render_split: "render t p ks = render_pre t p ks @ drop (last_end p ks) t"
  by (induction ks arbitrary: p) simp_all

lemma render_pre_snoc:
  "render_pre t p (ks @ [k]) = render_pre t p ks @ slice t (last_end p ks) (m_start k) @ tag_of (kind_name (m_kind k))"
  by (induction ks arbitrary: p) simp_all

lemma last_end_snoc: "last_end p (ks @ [k]) = m_end k"
  by (induction ks arbitrary: p) simp_all

lemma last_end_le:
  "non_overlapping (ks @ [k]) \<Longrightarrow> (ks = [] \<longrightarrow> p \<le> m_start k) \<Longrightarrow> last_end p ks \<le> m_start k"
proof (induction ks arbitrary: p)
  case (Cons a ks)
  then show ?case by (cases ks) auto
qed simp

lemma non_overlapping_appendD: "non_overlapping (ks @ ks') \<Longrightarrow> non_overlapping ks"
  by (induction ks rule: non_overlapping.induct) simp_all

section \<open>Where a tag can occur\<close>

lemma tag_of_ne: "tag_of n \<noteq> []"
  by (simp add: tag_of_def)

lemma hd_tag_of: "hd (tag_of n) = CHR ''[''"
  by (simp add: tag_of_def)

text \<open>A tag occurs at the start of another tag only if their names agree,
  since a name holds no closing bracket.\<close>

lemma take_close_bracket:
  "take (Suc (length a)) (b @ CHR '']'' # rest) = a @ [CHR '']''] \<Longrightarrow>
     CHR '']'' \<notin> set a \<Longrightarrow> CHR '']'' \<notin> set b \<Longrightarrow> a = b"
proof (induction a arbitrary: b)
  case Nil
  then show ?case by (cases b) auto
next
  case (Cons x a)
  then show ?case by (cases b) auto
qed

lemma tag_occurs_at_tag:
  assumes "occurs_at (tag_of a) (tag_of b @ rest) 0"
    and "CHR '']'' \<notin> set a" and "CHR '']'' \<notin> set b"
  shows "a = b"
proof -
  from assms(1) have "take (Suc (length a)) (b @ CHR '']'' # rest) = a @ [CHR '']'']"
    by (simp add: occurs_at_def tag_of_def)
  from this assms(2,3) show ?thesis by (rule take_close_bracket)
qed

lemma no_occurs_at_plain:
  "j < length s \<Longrightarrow> s ! j \<noteq> CHR ''['' \<Longrightarrow> \<not> occurs_at (tag_of n) (s @ rest) j"
  using occurs_at_nth [of "tag_of n" "s @ rest" j] by (auto simp: tag_of_ne hd_tag_of nth_append)

lemma no_occurs_in_slice:
  assumes "CHR ''['' \<notin> set t" and "j < length (slice t i k)"
  shows "\<not> occurs_at (tag_of n) (slice t i k @ rest) j"
proof -
  from assms(2) have "slice t i k ! j \<in> set t" using set_slice by (meson nth_mem subsetD)
  with assms show ?thesis by (intro no_occurs_at_plain) auto
qed

lemma no_occurs_in_tag:
  assumes "j < length (tag_of b)" and "CHR '']'' \<notin> set a" and "CHR '']'' \<notin> set b"
    and "CHR ''['' \<notin> set b" and "a \<noteq> b"
  shows "\<not> occurs_at (tag_of a) (tag_of b @ rest) j"
proof (cases j)
  case 0
  with assms tag_occurs_at_tag show ?thesis by blast
next
  case (Suc j')
  with assms(1) have "tag_of b ! j \<noteq> CHR ''[''"
    using assms(4) by (auto simp: tag_of_def nth_append nth_Cons' dest: nth_mem)
  with assms(1) show ?thesis by (rule no_occurs_at_plain)
qed

lemma no_occurs_in_render_pre:
  assumes "CHR ''['' \<notin> set t" and "\<forall>m \<in> set ks. m_kind m \<noteq> k"
    and "j < length (render_pre t p ks)"
  shows "\<not> occurs_at (tag_of (kind_name k)) (render_pre t p ks @ rest) j"
  using assms
proof (induction ks arbitrary: p j)
  case (Cons m ks)
  let ?g = "slice t p (m_start m)" and ?tg = "tag_of (kind_name (m_kind m))"
  have names: "kind_name k \<noteq> kind_name (m_kind m)"
    using Cons.prems(2) kind_name_inj by auto
  consider "j < length ?g" | "length ?g \<le> j" "j < length ?g + length ?tg"
    | "length ?g + length ?tg \<le> j" by linarith
  then show ?case
  proof cases
    case 1
    then show ?thesis
      using no_occurs_in_slice [OF Cons.prems(1) 1] by simp
  next
    case 2
    then obtain i where j: "j = length ?g + i" "i < length ?tg"
      by (metis add_diff_inverse_nat add_less_cancel_left not_le)
    have "\<not> occurs_at (tag_of (kind_name k)) (?tg @ render_pre t (m_end m) ks @ rest) i"
      by (rule no_occurs_in_tag) (use j names kind_name_brackets in auto)
    then have "\<not> occurs_at (tag_of (kind_name k)) (?g @ ?tg @ render_pre t (m_end m) ks @ rest) (length ?g + i)"
      by (simp only: occurs_at_shift not_False_eq_True)
    then show ?thesis unfolding j(1) by (simp only: render_pre.simps append.assoc not_False_eq_True)
  next
    case 3
    then obtain i where j: "j = length ?g + (length ?tg + i)"
      by (metis le_add_diff_inverse add.assoc)
    with Cons.prems(3) have "i < length (render_pre t (m_end m) ks)" by simp
    with Cons.IH Cons.prems(1,2) have "\<not> occurs_at (tag_of (kind_name k)) (render_pre t (m_end m) ks @ rest) i"
      by simp
    then have "\<not> occurs_at (tag_of (kind_name k)) (?g @ ?tg @ render_pre t (m_end m) ks @ rest) (length ?g + (length ?tg + i))"
      by (simp only: occurs_at_shift not_False_eq_True)
    then show ?thesis unfolding j by (simp only: render_pre.simps append.assoc not_False_eq_True)
  qed
qed simp


section \<open>The step and the loop\<close>

lemma demask_step_Inl:
  "demask_step e dt = Inl err \<longleftrightarrow> err = ValueError \<and> length (position e) \<noteq> 2"
  by (auto simp: demask_step_def Let_def split: list.splits)

lemma demask_step_found:
  assumes "position e = [a, b]" and "find_idx (tag_of (classification e)) dt = Some i"
  shows "demask_step e dt =
           Inr (take i dt @ entity e @ drop (i + length (tag_of (classification e))) dt)"
  using assms by (simp add: demask_step_def py_find_def)

lemma demask_step_not_found:
  assumes "length (position e) = 2" and "py_find dt (tag_of (classification e)) = -1"
  shows "demask_step e dt = Inr dt"
  using assms by (auto simp: demask_step_def Let_def split: list.splits)

lemma demask_loop_Inl:
  "demask_loop es dt = Inl err \<longleftrightarrow> err = ValueError \<and> \<not> list_all (\<lambda>e. length (position e) = 2) es"
proof (induction es arbitrary: dt)
  case (Cons e es)
  show ?case
  proof (cases "demask_step e dt")
    case (Inl err')
    then show ?thesis using demask_step_Inl [of e dt err'] demask_step_Inl [of e dt err] by auto
  next
    case (Inr dt')
    then have "length (position e) = 2" using demask_step_Inl [of e dt] by (cases "length (position e) = 2") auto
    with Inr Cons.IH [of dt'] show ?thesis by simp
  qed
qed simp

lemma find_tag_after_plain:
  assumes "CHR ''['' \<notin> set a"
  shows "find_idx (tag_of n) (a @ tag_of n @ b) = Some (length a)"
proof (rule find_idx_append_self, intro allI impI)
  fix j assume j: "j < length a"
  with assms have "a ! j \<noteq> CHR ''[''" by (metis nth_mem)
  with j show "\<not> occurs_at (tag_of n) (a @ tag_of n @ b) j" by (rule no_occurs_at_plain)
qed

section \<open>Undoing the last replacement\<close>

lemma spans_ok_butlast:
  "spans_ok t (ks @ [k]) \<Longrightarrow> spans_ok t ks"
  by (auto simp: spans_ok_def dest: non_overlapping_appendD)

lemma demask_step_last:
  assumes ok: "spans_ok t (ks @ [k])" and t: "CHR ''['' \<notin> set t"
    and kinds: "\<forall>m \<in> set ks. m_kind m \<noteq> m_kind k"
    and mtext: "m_text k = slice t (m_start k) (m_end k)"
  shows "demask_step (entity_record k) (render t 0 (ks @ [k])) = Inr (render t 0 ks)"
proof -
  let ?q = "last_end 0 ks" and ?w = "tag_of (kind_name (m_kind k))"
  let ?P = "render_pre t 0 ks" and ?g = "slice t ?q (m_start k)" and ?B = "drop (m_end k) t"
  from ok have k: "m_start k \<le> m_end k" "m_end k \<le> length t" by (auto simp: spans_ok_def)
  from ok have q: "?q \<le> m_start k" by (intro last_end_le) (auto simp: spans_ok_def)
  have r: "render t 0 (ks @ [k]) = (?P @ ?g) @ ?w @ ?B"
    by (simp add: render_split render_pre_snoc last_end_snoc)
  have none: "\<not> occurs_at ?w ((?P @ ?g) @ ?w @ ?B) j" if j: "j < length (?P @ ?g)" for j
  proof (cases "j < length ?P")
    case True
    then show ?thesis
      using no_occurs_in_render_pre [OF t kinds True, of "?g @ ?w @ ?B"] by simp
  next
    case False
    then obtain i where i: "j = length ?P + i" "i < length ?g"
      using j by (metis add_diff_inverse_nat add_less_cancel_left length_append)
    have "\<not> occurs_at ?w (?g @ ?w @ ?B) i" by (rule no_occurs_in_slice [OF t i(2)])
    then show ?thesis unfolding i(1) by (simp only: append.assoc occurs_at_shift not_False_eq_True)
  qed
  then have "find_idx ?w ((?P @ ?g) @ ?w @ ?B) = Some (length (?P @ ?g))"
    by (intro find_idx_append_self) blast
  then have "demask_step (entity_record k) ((?P @ ?g) @ ?w @ ?B) = Inr ((?P @ ?g) @ m_text k @ ?B)"
    by (simp add: demask_step_found [where a = "int (m_start k)" and b = "int (m_end k)"] entity_record_def)
  also have "(?P @ ?g) @ m_text k @ ?B = ?P @ drop ?q t"
    using q k by (simp add: mtext slice_drop_concat)
  also have "\<dots> = render t 0 ks" by (simp add: render_split)
  finally show ?thesis by (simp only: r)
qed

lemma demask_loop_render:
  assumes "spans_ok t ks" and "CHR ''['' \<notin> set t" and "distinct (map m_kind ks)"
    and "\<forall>m \<in> set ks. m_text m = slice t (m_start m) (m_end m)"
  shows "demask_loop (rev (map entity_record ks)) (render t 0 ks) = Inr t"
  using assms
proof (induction ks rule: rev_induct)
  case Nil
  then show ?case by simp
next
  case (snoc k ks)
  have step: "demask_step (entity_record k) (render t 0 (ks @ [k])) = Inr (render t 0 ks)"
    by (rule demask_step_last) (use snoc.prems in \<open>auto simp: image_iff\<close>)
  have "demask_loop (rev (map entity_record ks)) (render t 0 ks) = Inr t"
    by (rule snoc.IH) (use snoc.prems spans_ok_butlast in auto)
  with step show ?case by simp
qed

section \<open>Properties of \<open>demask_pii\<close>\<close>

text \<open>C2. Round trip: for a text without \<open>[\<close> whose masked records carry
  pairwise distinct classifications, demasking the output of \<open>mask_pii\<close>
  restores the text.\<close>

theorem demask_mask_roundtrip:
  assumes "CHR ''['' \<notin> set t" and "distinct (map classification (snd (mask_pii t)))"
  shows "demask_pii (fst (mask_pii t)) (snd (mask_pii t)) = Inr t"
proof -
  let ?ks = "resolve (scan t)"
  have texts: "\<forall>m \<in> set ?ks. m_text m = slice t (m_start m) (m_end m)"
    using resolve_subset scan_wf by (fastforce simp: wf_cand_def)
  from assms(2) have "distinct (map (kind_name \<circ> m_kind) ?ks)"
    by (simp add: mask_pii_eq entity_record_def o_def)
  then have "distinct (map m_kind ?ks)"
    using kind_name_inj by (simp add: distinct_map inj_on_def)
  with resolve_scan_ok assms(1) texts show ?thesis
    by (simp add: mask_pii_eq demask_pii_def demask_loop_render)
qed

lemma demask_mask_roundtrip_witness:
  "CHR ''['' \<notin> set ''Call 9876543210.''
   \<and> distinct (map classification (snd (mask_pii ''Call 9876543210.'')))
   \<and> demask_pii (fst (mask_pii ''Call 9876543210.'')) (snd (mask_pii ''Call 9876543210.''))
       = Inr ''Call 9876543210.''"
proof -
  have ev: "mask_pii ''Call 9876543210.'' =
      (''Call [phone_number].'', [\<lparr>position = [5, 15], classification = ''phone_number'', entity = ''9876543210''\<rparr>])"
    by (simp add: mask_eval_simps)
  have h1: "CHR ''['' \<notin> set ''Call 9876543210.''" by simp
  have h2: "distinct (map classification (snd (mask_pii ''Call 9876543210.'')))" by (simp add: ev)
  from demask_mask_roundtrip [OF h1 h2] h1 h2 show ?thesis by simp
qed

text \<open>C14. \<open>demask_pii\<close> fails exactly when some record's position does not
  have two elements, and then with \<open>ValueError\<close> (the tuple unpacking of
  line 70); otherwise it returns a text.\<close>

theorem demask_pii_error:
  "demask_pii mt es = Inl err \<longleftrightarrow> err = ValueError \<and> \<not> list_all (\<lambda>e. length (position e) = 2) es"
  by (simp add: demask_pii_def demask_loop_Inl)

text \<open>C15. A record whose tag does not occur is skipped silently: when no
  record's tag occurs in the text, the text is returned unchanged.\<close>

theorem demask_pii_skip_missing:
  assumes "list_all (\<lambda>e. length (position e) = 2 \<and> py_find mt (tag_of (classification e)) = -1) es"
  shows "demask_pii mt es = Inr mt"
proof -
  have "demask_loop xs mt = Inr mt"
    if "list_all (\<lambda>e. length (position e) = 2 \<and> py_find mt (tag_of (classification e)) = -1) xs" for xs
    using that by (induction xs) (simp_all add: demask_step_not_found)
  with assms show ?thesis by (simp add: demask_pii_def)
qed

lemma demask_pii_skip_missing_witness:
  "list_all (\<lambda>e. length (position e) = 2 \<and> py_find ''no tags here'' (tag_of (classification e)) = -1)
     [\<lparr>position = [0, 4], classification = ''email'', entity = ''a@b.c''\<rparr>]
   \<and> demask_pii ''no tags here'' [\<lparr>position = [0, 4], classification = ''email'', entity = ''a@b.c''\<rparr>]
       = Inr ''no tags here''"
proof -
  have h: "list_all (\<lambda>e. length (position e) = 2 \<and> py_find ''no tags here'' (tag_of (classification e)) = -1)
     [\<lparr>position = [0, 4], classification = ''email'', entity = ''a@b.c''\<rparr>]"
    by (simp add: py_find_def tag_of_def find_idx.simps)
  from demask_pii_skip_missing [OF h] h show ?thesis by simp
qed

text \<open>C17. The recorded offsets play no part beyond being unpacked: the
  comment of line 74 says the tag is searched from the start position, but
  the search starts at the beginning of the text, so replacing every
  position by \<open>[0, 0]\<close> gives the same result.\<close>

theorem demask_pii_ignores_positions:
  assumes "list_all (\<lambda>e. length (position e) = 2) es"
  shows "demask_pii mt (map (\<lambda>e. e\<lparr>position := [0, 0]\<rparr>) es) = demask_pii mt es"
proof -
  have step: "demask_step (e\<lparr>position := [0, 0]\<rparr>) dt = demask_step e dt"
    if "length (position e) = 2" for e dt
    using that by (auto simp: demask_step_def Let_def split: list.splits)
  have "demask_loop (map (\<lambda>e. e\<lparr>position := [0, 0]\<rparr>) xs) dt = demask_loop xs dt"
    if "list_all (\<lambda>e. length (position e) = 2) xs" for xs dt
    using that by (induction xs arbitrary: dt) (simp_all add: step split: sum.splits)
  with assms show ?thesis by (simp add: demask_pii_def rev_map)
qed

lemma demask_pii_ignores_positions_witness:
  "list_all (\<lambda>e. length (position e) = 2) [\<lparr>position = [7, 9], classification = ''cvv_no'', entity = ''123''\<rparr>]
   \<and> demask_pii ''x [cvv_no]'' (map (\<lambda>e. e\<lparr>position := [0, 0]\<rparr>) [\<lparr>position = [7, 9], classification = ''cvv_no'', entity = ''123''\<rparr>])
     = demask_pii ''x [cvv_no]'' [\<lparr>position = [7, 9], classification = ''cvv_no'', entity = ''123''\<rparr>]"
proof -
  have h: "list_all (\<lambda>e. length (position e) = 2) [\<lparr>position = [7, 9], classification = ''cvv_no'', entity = ''123''\<rparr>]"
    by simp
  from demask_pii_ignores_positions [OF h] h show ?thesis by simp
qed

text \<open>C16. Two records of the same kind are restored in swapped order: the
  loop runs over \<open>reversed(masked_entities)\<close>, so the last record is put
  into the first occurrence of the common tag and the first record into the
  second.  The round trip therefore fails whenever a text holds two
  different entities of one kind.\<close>

theorem demask_swaps_same_kind:
  assumes "position e1 = [s1, f1]" and "position e2 = [s2, f2]"
    and "classification e2 = classification e1"
    and "CHR ''['' \<notin> set u" and "CHR ''['' \<notin> set v" and "CHR ''['' \<notin> set (entity e2)"
  shows "demask_pii (u @ tag_of (classification e1) @ v @ tag_of (classification e1) @ w) [e1, e2]
           = Inr (u @ entity e2 @ v @ entity e1 @ w)"
proof -
  let ?T = "tag_of (classification e1)"
  have "find_idx (tag_of (classification e2)) (u @ ?T @ v @ ?T @ w) = Some (length u)"
    using find_tag_after_plain [OF assms(4)] assms(3) by simp
  then have first: "demask_step e2 (u @ ?T @ v @ ?T @ w) = Inr (u @ entity e2 @ v @ ?T @ w)"
    by (simp add: demask_step_found [OF assms(2)] assms(3))
  have "CHR ''['' \<notin> set (u @ entity e2 @ v)" using assms(4-6) by simp
  then have "find_idx ?T ((u @ entity e2 @ v) @ ?T @ w) = Some (length (u @ entity e2 @ v))"
    by (rule find_tag_after_plain)
  then have second: "demask_step e1 (u @ entity e2 @ v @ ?T @ w) = Inr (u @ entity e2 @ v @ entity e1 @ w)"
    by (simp add: demask_step_found [OF assms(1)])
  show ?thesis by (simp add: demask_pii_def first second)
qed

lemma demask_swaps_same_kind_witness:
  "position \<lparr>position = [5, 15], classification = ''phone_number'', entity = ''9876543210''\<rparr> = [5, 15]
   \<and> position \<lparr>position = [19, 29], classification = ''phone_number'', entity = ''9123456780''\<rparr> = [19, 29]
   \<and> demask_pii ''Call [phone_number] or [phone_number].''
       [\<lparr>position = [5, 15], classification = ''phone_number'', entity = ''9876543210''\<rparr>,
        \<lparr>position = [19, 29], classification = ''phone_number'', entity = ''9123456780''\<rparr>]
       = Inr ''Call 9123456780 or 9876543210.''"
proof -
  let ?e1 = "\<lparr>position = [5, 15], classification = ''phone_number'', entity = ''9876543210''\<rparr>"
  let ?e2 = "\<lparr>position = [19, 29], classification = ''phone_number'', entity = ''9123456780''\<rparr>"
  have h1: "position ?e1 = [5, 15]" and h2: "position ?e2 = [19, 29]" by simp_all
  have h3: "classification ?e2 = classification ?e1" by simp
  have h4: "CHR ''['' \<notin> set ''Call ''" and h5: "CHR ''['' \<notin> set '' or ''"
    and h6: "CHR ''['' \<notin> set (entity ?e2)" by simp_all
  from demask_swaps_same_kind [OF h1 h2 h3 h4 h5 h6, of "''.''"] h1 h2 show ?thesis
    by (simp add: tag_of_def)
qed

end
