(* ===== verification/Regex_Lang.thy ===== *)
theory Regex_Lang
  imports Regex
begin

text \<open>
  A declarative reading of the regex syntax of \<open>Regex\<close>: the set of words a
  pattern matches, with \<open>\b\<close> read as the empty word (a word boundary
  constrains the context of a match, not the characters it consumes).  The
  backtracking semantics is sound for it: every end cursor that \<open>ends\<close>
  lists, so every match that \<open>re.finditer\<close> reports, consumes a word of the
  pattern's language.
\<close>

text \<open>\<open>appends u v w\<close>: \<open>w = u @ v\<close>, as a relation that can be run
  backwards to enumerate the splits of \<open>w\<close>.\<close>

inductive appends :: "string \<Rightarrow> string \<Rightarrow> string \<Rightarrow> bool" where
  appends_Nil: "appends [] v v"
| appends_Cons: "appends u v w \<Longrightarrow> appends (x # u) v (x # w)"

code_pred (modes: appends: o \<Rightarrow> o \<Rightarrow> i \<Rightarrow> bool) appends .

text \<open>\<open>lang_rep r lo hi w\<close>: \<open>w\<close> is a sequence of words of \<open>r\<close>, at least
  \<open>lo\<close> of them and, when \<open>hi = Some n\<close>, at most \<open>max lo n\<close>; once the
  minimum is reached only non-empty iterations count, as in \<open>rep\<close>.\<close>

inductive lang :: "rx \<Rightarrow> string \<Rightarrow> bool"
  and lang_rep :: "rx \<Rightarrow> nat \<Rightarrow> nat option \<Rightarrow> string \<Rightarrow> bool" where
  lang_Eps: "lang Eps []"
| lang_Lit: "lang (Lit a) [a]"
| lang_Cls: "class_match is x \<Longrightarrow> lang (Cls is) [x]"
| lang_Cat: "appends u v w \<Longrightarrow> lang r1 u \<Longrightarrow> lang r2 v \<Longrightarrow> lang (Cat r1 r2) w"
| lang_AltL: "lang r1 w \<Longrightarrow> lang (Alt r1 r2) w"
| lang_AltR: "lang r2 w \<Longrightarrow> lang (Alt r1 r2) w"
| lang_Rep: "lang_rep r lo hi w \<Longrightarrow> lang (Rep r lo hi g) w"
| lang_Bnd: "lang Bnd []"
| rep_stop: "lang_rep r 0 hi []"
| rep_min: "0 < lo \<Longrightarrow> appends u v w \<Longrightarrow> lang r u \<Longrightarrow>
             lang_rep r (lo - 1) (map_option (\<lambda>n. n - 1) hi) v \<Longrightarrow> lang_rep r lo hi w"
| rep_opt: "hi \<noteq> Some 0 \<Longrightarrow> appends u v w \<Longrightarrow> u \<noteq> [] \<Longrightarrow> lang r u \<Longrightarrow>
             lang_rep r 0 (map_option (\<lambda>n. n - 1) hi) v \<Longrightarrow> lang_rep r 0 hi w"

code_pred (modes: lang: i \<Rightarrow> i \<Rightarrow> bool and lang_rep: i \<Rightarrow> i \<Rightarrow> i \<Rightarrow> i \<Rightarrow> bool) lang .

text \<open>\<open>moves P c c'\<close>: the cursor \<open>c'\<close> is \<open>c\<close> moved over a word that
  satisfies \<open>P\<close>.\<close>

definition moves :: "(string \<Rightarrow> bool) \<Rightarrow> cursor \<Rightarrow> cursor \<Rightarrow> bool" where
  "moves P c c' \<longleftrightarrow> (\<exists>w. snd c = w @ snd c' \<and> fst c' = rev w @ fst c \<and> P w)"

text \<open>\<open>within lo hi k\<close>: \<open>k\<close> iterations respect the bounds of \<open>r{lo,hi}\<close>
  as \<open>rep\<close> counts them.\<close>

definition within :: "nat \<Rightarrow> nat option \<Rightarrow> nat \<Rightarrow> bool" where
  "within lo hi k \<longleftrightarrow> lo \<le> k \<and> (case hi of None \<Rightarrow> True | Some n \<Rightarrow> k \<le> max lo n)"

lemma appends_iff [simp]: "appends u v w \<longleftrightarrow> w = u @ v"
proof
  show "appends u v w \<Longrightarrow> w = u @ v" by (induction rule: appends.induct) simp_all
next
  show "w = u @ v \<Longrightarrow> appends u v w"
    by (induction u arbitrary: w) (auto intro: appends.intros)
qed

lemma lang_Cat_app: "lang r1 u \<Longrightarrow> lang r2 v \<Longrightarrow> lang (Cat r1 r2) (u @ v)"
  by (rule lang_Cat) simp_all

lemma rep_min_app:
  "0 < lo \<Longrightarrow> lang r u \<Longrightarrow> lang_rep r (lo - 1) (map_option (\<lambda>n. n - 1) hi) v \<Longrightarrow>
   lang_rep r lo hi (u @ v)"
  by (rule rep_min) simp_all

lemma rep_opt_app:
  "hi \<noteq> Some 0 \<Longrightarrow> u \<noteq> [] \<Longrightarrow> lang r u \<Longrightarrow> lang_rep r 0 (map_option (\<lambda>n. n - 1) hi) v \<Longrightarrow>
   lang_rep r 0 hi (u @ v)"
  by (rule rep_opt) simp_all

lemma moves_refl: "P [] \<Longrightarrow> moves P c c"
  by (auto simp: moves_def)

lemma moves_step: "P [x] \<Longrightarrow> moves P (p, x # s) (x # p, s)"
  by (auto simp: moves_def)

lemma moves_trans:
  assumes "moves P a b" and "moves Q b c" and "\<And>u v. P u \<Longrightarrow> Q v \<Longrightarrow> R (u @ v)"
  shows "moves R a c"
proof -
  from assms(1) obtain u where "snd a = u @ snd b" "fst b = rev u @ fst a" "P u"
    by (auto simp: moves_def)
  moreover from assms(2) obtain v where "snd b = v @ snd c" "fst c = rev v @ fst b" "Q v"
    by (auto simp: moves_def)
  ultimately show ?thesis
    using assms(3) [of u v] by (auto simp: moves_def intro!: exI [of _ "u @ v"])
qed

lemma moves_mono: "moves P c c' \<Longrightarrow> (\<And>w. P w \<Longrightarrow> Q w) \<Longrightarrow> moves Q c c'"
  by (auto simp: moves_def)

lemma moves_empty: "moves P c c \<Longrightarrow> P []"
  by (auto simp: moves_def)

lemma moves_progress:
  "moves P c d \<Longrightarrow> length (snd d) < length (snd c) \<Longrightarrow> moves (\<lambda>u. P u \<and> u \<noteq> []) c d"
  by (auto simp: moves_def)

lemma moves_stall:
  "moves P c d \<Longrightarrow> \<not> length (snd d) < length (snd c) \<Longrightarrow> moves (\<lambda>u. u = []) c d"
  by (auto simp: moves_def)

lemma moves_concat_map:
  assumes "c' \<in> set (concat (map F xs))"
    and "\<And>d. d \<in> set xs \<Longrightarrow> moves P c d"
    and "\<And>d e. d \<in> set xs \<Longrightarrow> e \<in> set (F d) \<Longrightarrow> moves Q d e"
    and "\<And>u v. P u \<Longrightarrow> Q v \<Longrightarrow> R (u @ v)"
  shows "moves R c c'"
proof -
  from assms(1) obtain d where "d \<in> set xs" "c' \<in> set (F d)" by auto
  with assms(2,3,4) show ?thesis by (blast intro: moves_trans)
qed

section \<open>Soundness of the backtracking semantics\<close>

lemma ends_lang:
  "c' \<in> set (ends r c) \<Longrightarrow> moves (lang r) c c'"
  "c' \<in> set (rep r lo hi g c) \<Longrightarrow> moves (lang_rep r lo hi) c c'"
proof (induction r c and r lo hi g c arbitrary: c' and c' rule: ends_rep.induct)
  case (1 c)
  then show ?case by (simp add: moves_refl lang_Eps)
next
  case (2 a p s)
  then show ?case by (auto split: list.splits if_splits intro: moves_step lang_Lit)
next
  case (3 "is" p s)
  then show ?case by (auto split: list.splits if_splits intro: moves_step lang_Cls)
next
  case (4 r1 r2 c)
  from "4.prems" have "c' \<in> set (concat (map (ends r2) (ends r1 c)))" by simp
  then show ?case
    by (rule moves_concat_map) (use "4.IH" lang_Cat_app in blast)+
next
  case (5 r1 r2 c)
  from "5.prems" have "c' \<in> set (ends r1 c) \<or> c' \<in> set (ends r2 c)" by simp
  then show ?case
    using "5.IH" by (blast intro: moves_mono lang_AltL lang_AltR)
next
  case (6 r lo hi g c)
  then have "moves (lang_rep r lo hi) c c'" by simp
  then show ?case by (rule moves_mono) (rule lang_Rep)
next
  case (7 p s)
  then show ?case by (auto simp: moves_refl lang_Bnd split: if_splits)
next
  case (8 r lo hi g c)
  let ?hi = "map_option (\<lambda>n. n - 1) hi"
  show ?case
  proof (cases "0 < lo")
    case True
    with "8.prems" have "c' \<in> set (concat (map (rep r (lo - 1) ?hi g) (ends r c)))"
      by (simp add: rep.simps [of r lo hi g c])
    then show ?thesis
      by (rule moves_concat_map [where P = "lang r" and Q = "lang_rep r (lo - 1) ?hi"])
         (use True "8.IH"(1,2) rep_min_app in auto)
  next
    case False
    let ?F = "\<lambda>c'. if length (snd c') < length (snd c) then rep r 0 ?hi g c' else [c']"
    from "8.prems" have c': "c' \<in> set (rep r lo hi g c)" .
    show ?thesis
    proof (cases "hi = Some 0")
      case True
      with c' False show ?thesis
        unfolding rep.simps [of r lo hi g c] by (simp add: moves_refl rep_stop)
    next
      case hi: False
      from c' have "c' = c \<or> c' \<in> set (concat (map ?F (ends r c)))"
        unfolding rep.simps [of r lo hi g c] using hi False
        by (cases g) (auto simp del: set_concat simp: Let_def)
      then show ?thesis
      proof
        assume "c' \<in> set (concat (map ?F (ends r c)))"
        then obtain d where d: "d \<in> set (ends r c)" and e: "c' \<in> set (?F d)"
          by (simp only: set_concat set_map) blast
        from d have md: "moves (lang r) c d" by (rule "8.IH"(3) [OF False hi])
        show ?thesis
        proof (cases "length (snd d) < length (snd c)")
          case True
          with e have "c' \<in> set (rep r 0 ?hi g d)" by simp
          with False "8.IH"(4) [OF False hi d True] have "moves (lang_rep r 0 ?hi) d c'" by simp
          with moves_progress [OF md True] show ?thesis
            by (rule moves_trans) (use False hi rep_opt_app in auto)
        next
          case stall: False
          with e have "c' = d" by simp
          with moves_stall [OF md stall] False show ?thesis
            by (auto elim: moves_mono intro: rep_stop)
        qed
      qed (use False in \<open>simp add: moves_refl rep_stop\<close>)
    qed
  qed
qed

lemma match_at_lang: "match_at r c = Some c' \<Longrightarrow> moves (lang r) c c'"
  by (rule ends_lang(1)) (rule match_at_in_ends)

text \<open>A match that the search reports from any cursor consumes a word of
  the pattern.\<close>

lemma finditer_word:
  assumes "(a, b) \<in> set (finditer r (p, s))"
  shows "lang r (slice (rev p @ s) a b)"
proof -
  let ?t = "rev p @ s"
  from assms obtain c' where m: "match_at r (cursor_at ?t a) = Some c'" and b: "length (fst c') = b"
    using finditer_match [of a b r p s] by auto
  from assms have a: "a \<le> length ?t"
    using finditer_bounds [of a b r p s] by simp
  from match_at_lang [OF m] obtain w where
    w: "drop a ?t = w @ snd c'" "fst c' = rev w @ rev (take a ?t)" "lang r w"
    by (auto simp: moves_def cursor_at_def)
  from w(2) b a have "length w = b - a" by simp
  with w(1) have "w = slice ?t a b" by (simp add: slice_def)
  with w(3) show ?thesis by simp
qed

section \<open>Inversion of the language\<close>

inductive_simps lang_Eps_iff: "lang Eps w"
inductive_simps lang_Lit_iff: "lang (Lit a) w"
inductive_simps lang_Cls_iff: "lang (Cls is) w"
inductive_simps lang_Cat_iff: "lang (Cat r1 r2) w"
inductive_simps lang_Alt_iff: "lang (Alt r1 r2) w"
inductive_simps lang_Rep_iff: "lang (Rep r lo hi g) w"
inductive_simps lang_Bnd_iff: "lang Bnd w"

lemmas lang_iffs = lang_Eps_iff lang_Lit_iff lang_Cls_iff lang_Cat_iff lang_Alt_iff lang_Rep_iff lang_Bnd_iff

lemma lang_rep_iter:
  "lang_rep r lo hi w \<Longrightarrow> \<exists>ws. w = concat ws \<and> list_all (lang r) ws \<and> within lo hi (length ws)"
proof (induction rule: lang_lang_rep.inducts(2) [where ?P1.0 = "\<lambda>_ _. True"])
  case (rep_stop r hi)
  show ?case by (rule exI [of _ "[]"]) (simp add: within_def split: option.splits)
next
  case (rep_min lo u v w r hi)
  then obtain ws where "v = concat ws" "list_all (lang r) ws"
    "within (lo - 1) (map_option (\<lambda>n. n - 1) hi) (length ws)" by blast
  with rep_min show ?case
    by (intro exI [of _ "u # ws"]) (auto simp: within_def split: option.splits)
next
  case (rep_opt hi u v w r)
  then obtain ws where "v = concat ws" "list_all (lang r) ws"
    "within 0 (map_option (\<lambda>n. n - 1) hi) (length ws)" by blast
  with rep_opt show ?case
    by (intro exI [of _ "u # ws"]) (auto simp: within_def split: option.splits)
qed simp_all


lemma concat_singletons:
  "list_all (lang (Cls is)) ws \<Longrightarrow> length (concat ws) = length ws \<and> list_all (class_match is) (concat ws)"
  by (induction ws) (auto simp: lang_Cls_iff)

lemma lang_rep_Cls:
  "lang_rep (Cls is) lo hi w \<Longrightarrow> list_all (class_match is) w \<and> within lo hi (length w)"
  using lang_rep_iter [of "Cls is" lo hi w] concat_singletons by fastforce

lemma lang_rep_opt: "lang_rep r 0 (Some 1) w \<Longrightarrow> w = [] \<or> lang r w"
proof -
  assume "lang_rep r 0 (Some 1) w"
  then obtain ws where "w = concat ws" "list_all (lang r) ws" "length ws \<le> 1"
    by (auto simp: within_def dest!: lang_rep_iter)
  then show ?thesis by (cases ws) auto
qed

lemma lang_opt_iff: "lang (Rep r 0 (Some 1) g) w \<longleftrightarrow> w = [] \<or> lang r w"
proof
  assume "lang (Rep r 0 (Some 1) g) w"
  then show "w = [] \<or> lang r w" by (simp add: lang_Rep_iff lang_rep_opt)
next
  assume "w = [] \<or> lang r w"
  then show "lang (Rep r 0 (Some 1) g) w"
  proof
    assume "w = []"
    then show ?thesis by (simp add: lang_Rep_iff rep_stop)
  next
    assume w: "lang r w"
    show ?thesis
    proof (cases "w = []")
      case True
      then show ?thesis by (simp add: lang_Rep_iff rep_stop)
    next
      case False
      have "lang_rep r 0 (Some 1) (w @ [])"
        by (rule rep_opt_app) (simp_all add: False w rep_stop)
      then show ?thesis by (simp add: lang_Rep_iff)
    qed
  qed
qed

lemma lang_rep_opt_iff: "lang_rep r 0 (Some 1) w \<longleftrightarrow> w = [] \<or> lang r w"
  using lang_opt_iff [of r True w] by (simp add: lang_Rep_iff)

lemma lang_rep_opt_iff': "lang_rep r 0 (Some (Suc 0)) w \<longleftrightarrow> w = [] \<or> lang r w"
  using lang_rep_opt_iff by simp

lemmas lang_opt_iffs = lang_rep_opt_iff lang_rep_opt_iff'

end
