(* ===== verification/Shapes.thy ===== *)
theory Shapes
  imports Scanner Regex_Lang
begin

text \<open>
  What the scanner's candidates look like.  For every entity kind of the
  registry \<open>PATTERNS\<close> (\<open>src/utils.py\<close>, lines 9--18) a bool-valued
  predicate \<open>shape k\<close> states, without regular expressions, the form of the
  text of a match: a CVV is three or four digits, an Aadhaar number twelve
  digits with at most two spaces, a card number 13 to 16 digits separated by
  spaces or hyphens, an expiry date a month \<open>01\<close>--\<open>12\<close> followed by an
  optional slash and two or four digits, a date of birth a day \<open>1\<close>--\<open>31\<close>,
  a month \<open>1\<close>--\<open>12\<close> and a year \<open>1900\<close>--\<open>2099\<close>, a phone number 8 to 15
  digits with at most three separators after an optional \<open>+\<close>, an e-mail
  address one \<open>@\<close> with a non-empty local part and a dotted domain, a full
  name two or more capitalised words separated by single white-space
  characters.  The lemmas \<open>lang_cvv\<close> \<dots> \<open>lang_name\<close> show that every word
  of each pattern's language (\<open>Regex_Lang.lang\<close>) has its kind's shape;
  with the soundness of the matcher, every candidate of \<open>scan\<close> has it.
\<close>

named_theorems class_simps "character classes of the patterns as predicates"

section \<open>Character classes and shapes\<close>

definition card_sep :: "char \<Rightarrow> bool" where
  "card_sep c \<longleftrightarrow> c = CHR '' '' \<or> c = CHR ''-''"

definition digit_val :: "char \<Rightarrow> nat" where
  "digit_val c = py_ord c - 48"

definition num_val :: "string \<Rightarrow> nat" where
  "num_val s = foldl (\<lambda>n c. 10 * n + digit_val c) 0 s"

fun split_by :: "(char \<Rightarrow> bool) \<Rightarrow> string \<Rightarrow> string list" where
  "split_by P [] = [[]]"
| "split_by P (c # cs) = (let fs = split_by P cs in if P c then [] # fs else (c # hd fs) # tl fs)"

definition month_ok :: "string \<Rightarrow> bool" where
  "month_ok m \<longleftrightarrow> list_all is_digit m \<and> 1 \<le> num_val m \<and> num_val m \<le> 12"

definition expiry_shape :: "string \<Rightarrow> bool" where
  "expiry_shape w \<longleftrightarrow>
     (let rest = drop 2 w; ys = (if rest \<noteq> [] \<and> hd rest = CHR ''/'' then tl rest else rest)
      in length w \<ge> 2 \<and> month_ok (take 2 w) \<and> list_all is_digit ys \<and> (length ys = 2 \<or> length ys = 4))"

definition date_sep :: "char \<Rightarrow> bool" where
  "date_sep c \<longleftrightarrow> c = CHR ''-'' \<or> c = CHR ''/''"

definition dob_shape :: "string \<Rightarrow> bool" where
  "dob_shape w \<longleftrightarrow>
     (case split_by date_sep w of
        [d, m, y] \<Rightarrow> list_all is_digit d \<and> 1 \<le> length d \<and> length d \<le> 2 \<and> 1 \<le> num_val d \<and> num_val d \<le> 31
                   \<and> 1 \<le> length m \<and> length m \<le> 2 \<and> month_ok m
                   \<and> list_all is_digit y \<and> length y = 4 \<and> 1900 \<le> num_val y \<and> num_val y \<le> 2099
      | _ \<Rightarrow> False)"

definition phone_sepc :: "char \<Rightarrow> bool" where
  "phone_sepc c \<longleftrightarrow> c = CHR ''-'' \<or> c = CHR ''.'' \<or> is_space c"

definition phone_shape :: "string \<Rightarrow> bool" where
  "phone_shape w \<longleftrightarrow>
     (let body = (if w \<noteq> [] \<and> hd w = CHR ''+'' then tl w else w); ds = length (filter is_digit body)
      in 8 \<le> ds \<and> ds \<le> 15 \<and> length body \<le> ds + 3 \<and> list_all (\<lambda>c. is_digit c \<or> phone_sepc c) body
         \<and> body \<noteq> [] \<and> is_digit (hd body) \<and> is_digit (last body))"

definition email_shape :: "string \<Rightarrow> bool" where
  "email_shape w \<longleftrightarrow>
     (let l = takeWhile (\<lambda>c. c \<noteq> CHR ''@'') w; d = drop (Suc (length l)) w
      in l \<noteq> [] \<and> length l < length w \<and> CHR ''@'' \<notin> set d \<and> d \<noteq> [] \<and> hd d \<noteq> CHR ''.'' \<and> CHR ''.'' \<in> set d)"

definition is_upper :: "char \<Rightarrow> bool" where
  "is_upper c \<longleftrightarrow> 65 \<le> py_ord c \<and> py_ord c \<le> 90"

definition is_lower :: "char \<Rightarrow> bool" where
  "is_lower c \<longleftrightarrow> 97 \<le> py_ord c \<and> py_ord c \<le> 122"

definition cap_word :: "string \<Rightarrow> bool" where
  "cap_word u \<longleftrightarrow> u \<noteq> [] \<and> is_upper (hd u) \<and> tl u \<noteq> [] \<and> list_all is_lower (tl u)"

definition name_shape :: "string \<Rightarrow> bool" where
  "name_shape w \<longleftrightarrow> (let ws = split_by is_space w in 2 \<le> length ws \<and> list_all cap_word ws)"

definition cvv_shape :: "string \<Rightarrow> bool" where
  "cvv_shape w \<longleftrightarrow> 3 \<le> length w \<and> length w \<le> 4 \<and> list_all is_digit w"

definition aadhar_shape :: "string \<Rightarrow> bool" where
  "aadhar_shape w \<longleftrightarrow>
     length (filter is_digit w) = 12 \<and> length w \<le> 14 \<and> list_all (\<lambda>c. is_digit c \<or> is_space c) w"

definition card_shape :: "string \<Rightarrow> bool" where
  "card_shape w \<longleftrightarrow>
     13 \<le> length (filter is_digit w) \<and> length (filter is_digit w) \<le> 16
     \<and> list_all (\<lambda>c. is_digit c \<or> card_sep c) w \<and> w \<noteq> [] \<and> is_digit (hd w)"

text \<open>What the text of a match of each kind looks like.\<close>

fun shape :: "entity_kind \<Rightarrow> string \<Rightarrow> bool" where
  "shape FullName w = name_shape w"
| "shape Email w = email_shape w"
| "shape PhoneNumber w = phone_shape w"
| "shape Dob w = dob_shape w"
| "shape AadharNum w = aadhar_shape w"
| "shape CreditDebitNo w = card_shape w"
| "shape CvvNo w = cvv_shape w"
| "shape ExpiryNo w = expiry_shape w"

section \<open>Every word of a pattern has its kind's shape\<close>

lemma class_match_digit [class_simps]: "class_match [CDigit] = is_digit"
  by (simp add: class_simps fun_eq_iff class_match_def)

lemma lang_cvv: "lang pat_cvv_no w \<Longrightarrow> cvv_shape w"
  unfolding cvv_shape_def
  using lang_rep_Cls [of "[CDigit]" 3 "Some 4"] by (auto simp: class_simps pat_cvv_no_def lang_iffs within_def)

lemma class_match_space [class_simps]: "class_match [CSpace] = is_space"
  by (simp add: class_simps fun_eq_iff class_match_def)

lemma digit_not_space: "is_digit c \<Longrightarrow> \<not> is_space c"
  by (auto simp: class_simps is_digit_def is_space_def)

lemma filter_digit_spaces: "list_all is_space xs \<Longrightarrow> filter is_digit xs = []"
  by (induction xs) (auto dest: digit_not_space)

lemma filter_all: "list_all P xs \<Longrightarrow> filter P xs = xs"
  by (simp add: class_simps list_all_iff)

lemma list_all_mono_or: "list_all P xs \<Longrightarrow> list_all (\<lambda>c. P c \<or> Q c) xs \<and> list_all (\<lambda>c. Q c \<or> P c) xs"
  by (simp add: class_simps list_all_iff)

lemma lang_aadhar: "lang pat_aadhar_num w \<Longrightarrow> aadhar_shape w"
  unfolding aadhar_shape_def
  by (auto simp: class_simps pat_aadhar_num_def lang_iffs within_def filter_all filter_digit_spaces list_all_mono_or
      dest!: lang_rep_Cls)

lemma class_match_card_sep [class_simps]: "class_match [CChr CHR '' '', CChr CHR ''-''] = card_sep"
  by (simp add: class_simps fun_eq_iff class_match_def card_sep_def)

lemma filter_digit_card_sep: "list_all card_sep xs \<Longrightarrow> filter is_digit xs = []"
  by (induction xs) (auto simp: class_simps card_sep_def is_digit_def py_ord_def)

lemma card_groups:
  "list_all (lang (Cat (Cls [CDigit]) (Rep (Cls [CChr CHR '' '', CChr CHR ''-'']) 0 None g))) ws \<Longrightarrow>
     length (filter is_digit (concat ws)) = length ws
     \<and> list_all (\<lambda>c. is_digit c \<or> card_sep c) (concat ws)
     \<and> (ws \<noteq> [] \<longrightarrow> is_digit (hd (concat ws)))"
proof (induction ws)
  case (Cons w ws)
  then obtain x s where w: "w = x # s" "is_digit x" "list_all card_sep s"
    by (auto simp: class_simps lang_iffs dest!: lang_rep_Cls)
  with Cons show ?case by (auto simp: class_simps filter_digit_card_sep list_all_iff)
qed simp

lemma lang_card: "lang pat_credit_debit_no w \<Longrightarrow> card_shape w"
proof -
  let ?g = "Cat (Cls [CDigit]) (Rep (Cls [CChr CHR '' '', CChr CHR ''-'']) 0 None False)"
  assume "lang pat_credit_debit_no w"
  then have "lang_rep ?g 13 (Some 16) w"
    by (simp add: class_simps pat_credit_debit_no_def lang_Cat_iff lang_Bnd_iff lang_Rep_iff)
  then obtain ws where w: "w = concat ws" and n: "within 13 (Some 16) (length ws)"
    and g: "list_all (lang ?g) ws"
    by (blast dest: lang_rep_iter)
  from card_groups [OF g] have digits: "length (filter is_digit w) = length ws"
    "list_all (\<lambda>c. is_digit c \<or> card_sep c) w" "ws \<noteq> [] \<longrightarrow> is_digit (hd w)"
    by (simp_all add: class_simps w)
  from n have "ws \<noteq> []" by (auto simp: class_simps within_def)
  moreover have "w \<noteq> []"
  proof
    assume "w = []"
    with digits(1) n show False by (simp add: class_simps within_def)
  qed
  ultimately show ?thesis
    using digits n unfolding card_shape_def within_def by auto
qed

lemma split_by_ne: "split_by P s \<noteq> []"
  by (induction s) (simp_all add: class_simps Let_def)

lemma split_by_plain: "\<not> list_ex P u \<Longrightarrow> split_by P (u @ v) = (u @ hd (split_by P v)) # tl (split_by P v)"
  by (induction u) (simp_all add: class_simps Let_def split_by_ne)

lemma split_by_none: "\<not> list_ex P u \<Longrightarrow> split_by P u = [u]"
  using split_by_plain [of P u "[]"] by simp

lemma class_match_09 [class_simps]: "class_match [CRng CHR ''0'' CHR ''9''] = is_digit"
  by (simp add: class_simps fun_eq_iff class_match_def is_digit_def py_ord_def)

lemma digit_not_slash: "is_digit c \<Longrightarrow> c \<noteq> CHR ''/''"
  by (auto simp: class_simps is_digit_def py_ord_def)

lemma digits_hd_not_slash [class_simps]: "list_all is_digit va \<Longrightarrow> va \<noteq> [] \<Longrightarrow> hd va \<noteq> CHR ''/''"
  by (cases va) (auto dest: digit_not_slash)

lemma lang_expiry: "lang pat_expiry_no w \<Longrightarrow> expiry_shape w"
  by (auto simp: class_simps pat_expiry_no_def lang_opt_iffs lang_iffs within_def
      expiry_shape_def Let_def month_ok_def num_val_def digit_val_def is_digit_def py_ord_def class_match_def
      dest!: lang_rep_Cls)

lemmas char_unfold = class_match_def is_digit_def num_val_def digit_val_def py_ord_def

lemma dob_day:
  "lang (Alt (Cat (ropt (Lit CHR ''0'')) (Cls [CRng CHR ''1'' CHR ''9'']))
             (Alt (Cat (Cls [CChr CHR ''1'', CChr CHR ''2'']) (Cls [CRng CHR ''0'' CHR ''9'']))
                  (Cat (Lit CHR ''3'') (Cls [CChr CHR ''0'', CChr CHR ''1''])))) d \<Longrightarrow>
   list_all is_digit d \<and> 1 \<le> length d \<and> length d \<le> 2 \<and> 1 \<le> num_val d \<and> num_val d \<le> 31"
  by (auto simp: lang_opt_iffs lang_iffs char_unfold)

lemma dob_month:
  "lang (Alt (Cat (ropt (Lit CHR ''0'')) (Cls [CRng CHR ''1'' CHR ''9'']))
             (Cat (Lit CHR ''1'') (Cls [CChr CHR ''0'', CChr CHR ''1'', CChr CHR ''2'']))) m \<Longrightarrow>
   1 \<le> length m \<and> length m \<le> 2 \<and> month_ok m"
  by (auto simp: lang_opt_iffs lang_iffs char_unfold month_ok_def)

lemma length_2_conv: "length v = 2 \<longleftrightarrow> (\<exists>a b. v = [a, b])"
  by (auto simp: class_simps numeral_2_eq_2 length_Suc_conv)

lemma dob_year:
  "lang (Alt (Cat (Lit CHR ''1'') (Lit CHR ''9'')) (Cat (Lit CHR ''2'') (Lit CHR ''0''))) u \<Longrightarrow>
   lang (rdigits 2 2) v \<Longrightarrow>
   list_all is_digit (u @ v) \<and> length (u @ v) = 4 \<and> 1900 \<le> num_val (u @ v) \<and> num_val (u @ v) \<le> 2099"
  by (auto simp: lang_iffs char_unfold within_def
      length_2_conv dest!: lang_rep_Cls)

lemma class_match_date_sep [class_simps]: "class_match [CChr CHR ''-'', CChr CHR ''/''] = date_sep"
  by (simp add: class_simps fun_eq_iff class_match_def date_sep_def)

lemma digits_no_date_sep: "list_all is_digit d \<Longrightarrow> \<not> list_ex date_sep d"
  by (auto simp: class_simps list_all_iff list_ex_iff date_sep_def is_digit_def py_ord_def)

lemma lang_dob: "lang pat_dob w \<Longrightarrow> dob_shape w"
  apply (simp only: pat_dob_def rseq.simps lang_Cat_iff lang_Bnd_iff lang_Cls_iff)
  apply (elim exE conjE)
  apply (drule dob_day, drule dob_month, drule (1) dob_year)
  apply (auto simp: class_simps dob_shape_def month_ok_def split_by_plain split_by_none digits_no_date_sep)
  done

lemma digit_run:
  "lang (rdigits lo hi) d \<Longrightarrow> list_all is_digit d \<and> lo \<le> length d \<and> length d \<le> max lo hi"
  by (auto simp: class_simps lang_Rep_iff within_def dest!: lang_rep_Cls)

lemma phone_sep_word: "lang phone_sep s \<Longrightarrow> list_all phone_sepc s \<and> length s \<le> 1"
  unfolding phone_sep_def lang_Rep_iff lang_rep_opt_iff
  by (auto simp: class_simps lang_Cls_iff class_match_def phone_sepc_def)

lemma filter_digit_phone_sep: "list_all phone_sepc s \<Longrightarrow> filter is_digit s = []"
  by (induction s) (auto simp: class_simps phone_sepc_def is_digit_def is_space_def py_ord_def)

lemma digit_not_plus: "is_digit c \<Longrightarrow> c \<noteq> CHR ''+''"
  by (auto simp: class_simps is_digit_def py_ord_def)

lemma list_all_hd: "list_all P d \<Longrightarrow> d \<noteq> [] \<Longrightarrow> P (hd d)"
  by (cases d) auto

lemma list_all_last: "list_all P d \<Longrightarrow> d \<noteq> [] \<Longrightarrow> P (last d)"
  by (cases d rule: rev_cases) auto

lemma phone_body:
  assumes "list_all is_digit d1" "list_all is_digit d2" "list_all is_digit d3" "list_all is_digit d4"
    "list_all phone_sepc s1" "list_all phone_sepc s2" "list_all phone_sepc s3"
    "length s1 \<le> 1" "length s2 \<le> 1" "length s3 \<le> 1"
    "1 \<le> length d1" "length d1 \<le> 3" "1 \<le> length d2" "length d2 \<le> 4"
    "3 \<le> length d3" "length d3 \<le> 4" "3 \<le> length d4" "length d4 \<le> 4"
  shows "let body = d1 @ s1 @ d2 @ s2 @ d3 @ s3 @ d4; ds = length (filter is_digit body)
      in 8 \<le> ds \<and> ds \<le> 15 \<and> length body \<le> ds + 3 \<and> list_all (\<lambda>c. is_digit c \<or> phone_sepc c) body
         \<and> body \<noteq> [] \<and> is_digit (hd body) \<and> is_digit (last body)"
proof -
  from assms(11,17) have ne: "d1 \<noteq> []" "d4 \<noteq> []" by auto
  with assms(1,4) have "is_digit (hd d1)" "is_digit (last d4)" by (simp_all add: class_simps list_all_hd list_all_last)
  with ne assms show ?thesis
    by (simp add: class_simps Let_def filter_all filter_digit_phone_sep list_all_mono_or)
qed

lemma lang_phone:
  assumes "lang pat_phone_number w"
  shows "phone_shape w"
proof -
  from assms obtain p d1 s1 d2 s2 d3 s3 d4 where
    w: "w = p @ d1 @ s1 @ d2 @ s2 @ d3 @ s3 @ d4" and
    p: "lang (ropt (Lit CHR ''+'')) p" and
    parts: "lang (rdigits 1 3) d1" "lang phone_sep s1" "lang (rdigits 1 4) d2" "lang phone_sep s2"
      "lang (rdigits 3 4) d3" "lang phone_sep s3" "lang (rdigits 3 4) d4"
    unfolding pat_phone_number_def rseq.simps lang_Cat_iff by blast
  let ?body = "d1 @ s1 @ d2 @ s2 @ d3 @ s3 @ d4"
  have body: "let body = ?body; ds = length (filter is_digit body)
      in 8 \<le> ds \<and> ds \<le> 15 \<and> length body \<le> ds + 3 \<and> list_all (\<lambda>c. is_digit c \<or> phone_sepc c) body
         \<and> body \<noteq> [] \<and> is_digit (hd body) \<and> is_digit (last body)"
    by (rule phone_body) (use digit_run [OF parts(1)] digit_run [OF parts(3)] digit_run [OF parts(5)]
        digit_run [OF parts(7)] phone_sep_word [OF parts(2)] phone_sep_word [OF parts(4)]
        phone_sep_word [OF parts(6)] in auto)
  then have "?body \<noteq> [] \<and> hd ?body \<noteq> CHR ''+''" by (auto simp: class_simps Let_def dest: digit_not_plus)
  moreover from p have "p = [] \<or> p = ''+''" by (simp add: class_simps lang_Rep_iff lang_opt_iffs lang_Lit_iff)
  ultimately show ?thesis
    using body w by (auto simp: class_simps phone_shape_def)
qed

lemma class_not_at:
  "list_all (class_match [CRng CHR ''a'' CHR ''z'', CRng CHR ''A'' CHR ''Z'', CRng CHR ''0'' CHR ''9'',
                          CChr CHR ''_'', CChr CHR ''.'', CChr CHR ''+'', CChr CHR ''-'']) u \<Longrightarrow>
   CHR ''@'' \<notin> set u"
  "list_all (class_match [CRng CHR ''a'' CHR ''z'', CRng CHR ''A'' CHR ''Z'', CRng CHR ''0'' CHR ''9'',
                          CChr CHR ''-'']) v \<Longrightarrow>
   CHR ''@'' \<notin> set v \<and> CHR ''.'' \<notin> set v"
  "list_all (class_match [CRng CHR ''a'' CHR ''z'', CRng CHR ''A'' CHR ''Z'', CRng CHR ''0'' CHR ''9'',
                          CChr CHR ''-'', CChr CHR ''.'']) z \<Longrightarrow>
   CHR ''@'' \<notin> set z"
  by (auto simp: class_simps list_all_iff class_match_def py_ord_def)

lemma lang_email:
  assumes "lang pat_email w"
  shows "email_shape w"
proof -
  from assms obtain u v z where w: "w = u @ CHR ''@'' # v @ CHR ''.'' # z"
    and u: "u \<noteq> []" "CHR ''@'' \<notin> set u" and v: "v \<noteq> []" "CHR ''@'' \<notin> set v" "CHR ''.'' \<notin> set v"
    and z: "CHR ''@'' \<notin> set z"
    unfolding pat_email_def rseq.simps lang_Cat_iff lang_Rep_iff lang_Lit_iff
    by (fastforce simp: within_def dest!: lang_rep_Cls class_not_at)
  from u(2) have "\<forall>x \<in> set u. x \<noteq> CHR ''@''" by auto
  then have "takeWhile (\<lambda>c. c \<noteq> CHR ''@'') w = u" by (simp add: class_simps w)
  moreover from v have "hd v \<noteq> CHR ''.''" using hd_in_set by metis
  ultimately show ?thesis using w u v z by (auto simp: class_simps email_shape_def)
qed

lemma class_match_upper [class_simps]: "class_match [CRng CHR ''A'' CHR ''Z''] = is_upper"
  by (simp add: class_simps fun_eq_iff class_match_def is_upper_def py_ord_def)

lemma class_match_lower [class_simps]: "class_match [CRng CHR ''a'' CHR ''z''] = is_lower"
  by (simp add: class_simps fun_eq_iff class_match_def is_lower_def py_ord_def)

lemma letters_not_space: "is_upper c \<Longrightarrow> \<not> is_space c" "is_lower c \<Longrightarrow> \<not> is_space c"
  by (auto simp: class_simps is_upper_def is_lower_def is_space_def)

lemma cap_word_plain: "cap_word u \<Longrightarrow> \<not> list_ex is_space u"
  by (cases u) (auto simp: class_simps cap_word_def list_all_iff list_ex_iff dest: letters_not_space)

lemma name_word:
  assumes "lang (Cat (Cls [CSpace]) (Cat rupper (rplus rlower))) u"
  shows "\<exists>sp v. u = sp # v \<and> is_space sp \<and> cap_word v"
proof -
  from assms obtain sp y l where u: "u = sp # y # l" and "is_space sp" "is_upper y"
    and l: "lang_rep rlower (Suc 0) None l"
    unfolding lang_Cat_iff lang_Cls_iff lang_Rep_iff by (auto simp: class_simps)
  moreover from lang_rep_Cls [OF l] have "l \<noteq> [] \<and> list_all is_lower l"
    by (auto simp: class_simps within_def)
  ultimately show ?thesis by (auto simp: class_simps cap_word_def)
qed

lemma split_name_tail:
  "list_all (\<lambda>u. \<exists>sp v. u = sp # v \<and> is_space sp \<and> cap_word v) ws \<Longrightarrow>
   split_by is_space (concat ws) = [] # map tl ws"
proof (induction ws)
  case (Cons u ws)
  then obtain sp v where "u = sp # v" "is_space sp" "cap_word v" by auto
  with Cons show ?case by (simp add: class_simps split_by_plain cap_word_plain)
qed simp

lemma lang_name:
  assumes "lang pat_full_name w"
  shows "name_shape w"
proof -
  let ?g = "Cat (Cls [CSpace]) (Cat rupper (rplus rlower))"
  from assms obtain x l r where w: "w = x # l @ r" and x: "is_upper x"
    and l: "lang_rep rlower 1 None l" and r: "lang_rep ?g 1 None r"
    unfolding pat_full_name_def rseq.simps lang_Cat_iff lang_Cls_iff lang_Rep_iff
    by (auto simp del: One_nat_def simp: class_simps)
  from lang_rep_Cls [OF l] have l': "l \<noteq> [] \<and> list_all is_lower l" by (auto simp: class_simps within_def)
  from lang_rep_iter [OF r] obtain ws where r': "r = concat ws" "list_all (lang ?g) ws" "1 \<le> length ws"
    by (auto simp del: One_nat_def simp: class_simps within_def)
  from r'(3) have ws: "ws \<noteq> []" by auto
  from r'(2) have words: "list_all (\<lambda>u. \<exists>sp v. u = sp # v \<and> is_space sp \<and> cap_word v) ws"
    by (auto simp del: One_nat_def simp: class_simps list_all_iff dest: name_word)
  have cap: "cap_word (x # l)" using x l' by (simp add: class_simps cap_word_def)
  then have "\<not> list_ex is_space (x # l)" by (rule cap_word_plain)
  then have "split_by is_space w = (x # l) # map tl ws"
    using split_by_plain [of is_space "x # l" "concat ws"] split_name_tail [OF words]
    by (simp only: w r'(1) append_Cons [symmetric]) simp
  moreover have "list_all cap_word (map tl ws)"
    using words by (auto simp: class_simps list_all_iff)
  ultimately show ?thesis using ws cap by (simp add: class_simps name_shape_def Suc_le_eq)
qed
lemma lang_shape: "(k, r) \<in> set PATTERNS \<Longrightarrow> lang r w \<Longrightarrow> shape k w"
  by (auto simp: class_simps PATTERNS_def lang_cvv lang_aadhar lang_card lang_expiry lang_dob lang_phone
      lang_email lang_name)

section \<open>Properties of the candidates\<close>

text \<open>Every candidate's text is a word of its kind's pattern.\<close>

lemma scan_lang:
  assumes "m \<in> set (scan text)"
  shows "\<exists>r. (m_kind m, r) \<in> set PATTERNS \<and> lang r (m_text m)"
proof -
  from assms obtain k r a b where "(k, r) \<in> set PATTERNS" "(a, b) \<in> set (py_finditer r text)"
    "m = mk_cand text k (a, b)"
    by (auto simp: class_simps mem_scan)
  then show ?thesis
    using finditer_word [of a b r "[]" "text"] by (auto simp: class_simps mk_cand_def py_finditer_def)
qed

text \<open>C27. Every candidate that the scanner reports has the shape of its kind:
  the text \<open>match.group()\<close> of a \<open>cvv_no\<close> match is three or four digits,
  that of an \<open>email\<close> match contains exactly one \<open>@\<close>, and so on for every
  kind of the registry.\<close>

theorem scan_shape:
  assumes "m \<in> set (scan text)"
  shows "shape (m_kind m) (m_text m)"
  using scan_lang [OF assms] lang_shape by blast

lemma scan_shape_witness:
  "\<lparr>m_start = 0, m_end = 3, m_kind = CvvNo, m_text = ''123''\<rparr> \<in> set (scan ''123'')
   \<and> shape CvvNo ''123''"
proof -
  have ev: "scan ''123'' = [\<lparr>m_start = 0, m_end = 3, m_kind = CvvNo, m_text = ''123''\<rparr>]"
    by (simp add: class_simps scan_def py_finditer_def finditer.simps match_at_def rep.simps pattern_defs char_defs
        mk_cand_def slice_def)
  have h: "\<lparr>m_start = 0, m_end = 3, m_kind = CvvNo, m_text = ''123''\<rparr> \<in> set (scan ''123'')"
    by (simp add: class_simps ev)
  from scan_shape [OF h] h show ?thesis by simp
qed

end
