(* ===== verification/Service.thy ===== *)
theory Service
  imports Masker
begin

text \<open>
  The service around the masking engine: \<open>load_model\<close> and
  \<open>classify_email\<close> of \<open>src/models.py\<close>, and the start-up handler and the
  \<open>/classify_email\<close> endpoint of \<open>src/api.py\<close>.  The trained classifier is
  a black box: a model object of type \<open>'m\<close> and its \<open>predict\<close> method, a
  function from a list of texts to a list of labels, passed as a parameter.
  The file system is a map from paths to the object \<open>pickle.load\<close> returns
  for the file there (\<open>None\<close>: the path does not exist).  The server's state
  is the global \<open>model\<close>; a request is the pydantic model
  \<open>EmailRequest\<close>, a record with the field \<open>email_body\<close>.  A sklearn \<open>Pipeline\<close> is truthy (its length is
  its number of steps, here two), so \<open>if not model\<close> tests for \<open>None\<close>.
  FastAPI runs the start-up handler before serving requests; the model
  allows any sequence of start-ups and requests, which includes that order.
\<close>

type_synonym 'm file_system = "string \<Rightarrow> 'm option"
type_synonym 'm predictor = "'m \<Rightarrow> string list \<Rightarrow> string list"

section \<open>models.py\<close>

definition MODEL_PATH :: string where
  "MODEL_PATH = ''email_classifier.pkl''"

definition load_model :: "'m file_system \<Rightarrow> py_error + 'm" where
  "load_model fs = (case fs MODEL_PATH of None \<Rightarrow> Inl FileNotFoundError | Some model \<Rightarrow> Inr model)"

text \<open>\<open>model.predict([email_text])[0]\<close>: indexing an empty prediction raises
  \<open>IndexError\<close>.\<close>

definition classify_email :: "'m predictor \<Rightarrow> 'm \<Rightarrow> string \<Rightarrow> py_error + string" where
  "classify_email predict model email_text =
     (case predict model [email_text] of [] \<Rightarrow> Inl IndexError | prediction # _ \<Rightarrow> Inr prediction)"

section \<open>api.py\<close>

record 'm server =
  model :: "'m option"

definition init_server :: "'m server" where
  "init_server = \<lparr>model = None\<rparr>"

text \<open>The request body of \<open>/classify_email\<close> (\<open>EmailRequest\<close>).\<close>

record email_request =
  email_body :: string

record email_response =
  input_email_body :: string
  list_of_masked_entities :: "masked_entity list"
  masked_email :: string
  category_of_the_email :: string

text \<open>What the client receives instead of a response: the
  \<open>HTTPException\<close> the handler raises, or an exception it does not catch
  (which FastAPI turns into a 500 response).\<close>

datatype api_error = HTTPException nat string | Unhandled py_error

text \<open>\<open>load_classification_model\<close>: an exception of \<open>load_model\<close> is printed
  and the global \<open>model\<close> keeps its value.\<close>

definition load_classification_model :: "'m file_system \<Rightarrow> 'm server \<Rightarrow> 'm server" where
  "load_classification_model fs s =
     (case load_model fs of Inl e \<Rightarrow> s | Inr m \<Rightarrow> s\<lparr>model := Some m\<rparr>)"

definition classify_email_endpoint ::
    "'m predictor \<Rightarrow> 'm server \<Rightarrow> email_request \<Rightarrow> api_error + email_response" where
  "classify_email_endpoint predict s request =
     (case model s of
        None \<Rightarrow> Inl (HTTPException 500 ''Model not loaded'')
      | Some m \<Rightarrow>
          (let original_email = email_body request;
               (masked_email, masked_entities) = mask_pii original_email
           in case classify_email predict m masked_email of
                Inl e \<Rightarrow> Inl (Unhandled e)
              | Inr category \<Rightarrow>
                  Inr \<lparr>input_email_body = original_email, list_of_masked_entities = masked_entities,
                       masked_email = masked_email, category_of_the_email = category\<rparr>))"

section \<open>Runs of the service\<close>

datatype 'm event = Startup "'m file_system" | Request email_request

fun serve :: "'m predictor \<Rightarrow> 'm server \<Rightarrow> 'm event list \<Rightarrow> 'm server \<times> (api_error + email_response) list" where
  "serve predict s [] = (s, [])"
| "serve predict s (Startup fs # evs) = serve predict (load_classification_model fs s) evs"
| "serve predict s (Request request # evs) =
     (let (s', rs) = serve predict s evs in (s', classify_email_endpoint predict s request # rs))"

text \<open>The model the start-up events leave behind, from a given one.\<close>

fun loaded_model :: "'m option \<Rightarrow> 'm event list \<Rightarrow> 'm option" where
  "loaded_model m [] = m"
| "loaded_model m (Startup fs # evs) =
     loaded_model (case load_model fs of Inl _ \<Rightarrow> m | Inr x \<Rightarrow> Some x) evs"
| "loaded_model m (Request _ # evs) = loaded_model m evs"


section \<open>Properties of the service\<close>

lemma endpoint_Some:
  "model s = Some m \<Longrightarrow>
     classify_email_endpoint predict s request =
       map_sum Unhandled (\<lambda>c. \<lparr>input_email_body = email_body request,
                               list_of_masked_entities = snd (mask_pii (email_body request)),
                               masked_email = fst (mask_pii (email_body request)), category_of_the_email = c\<rparr>)
         (classify_email predict m (fst (mask_pii (email_body request))))"
  by (simp add: classify_email_endpoint_def case_prod_unfold Let_def split: sum.splits)

lemma serve_state_eq: "fst (serve predict s evs) = s\<lparr>model := loaded_model (model s) evs\<rparr>"
proof (induction predict s evs rule: serve.induct)
  case (2 predict s fs evs)
  then show ?case
    by (simp add: load_classification_model_def split: sum.splits)
next
  case (3 predict s request evs)
  then show ?case by (simp add: case_prod_unfold)
qed simp

text \<open>Requests do not change the state; each is answered by the endpoint
  in the state they find.\<close>

lemma serve_requests:
  "serve predict s (map Request bodies) = (s, map (classify_email_endpoint predict s) bodies)"
  by (induction bodies) auto

lemma endpoint_loaded:
  "model s = Some m \<Longrightarrow> classify_email_endpoint predict s request \<noteq> Inl (HTTPException c msg)"
  by (cases "classify_email predict m (fst (mask_pii (email_body request)))") (simp_all add: endpoint_Some)

text \<open>C20. A successful response echoes the request body, carries the output
  of \<open>mask_pii\<close>, and its category is the classifier's label for the masked
  text: the classifier is never given the raw body.\<close>

theorem endpoint_response:
  assumes "classify_email_endpoint predict s request = Inr r"
  shows "\<exists>m. model s = Some m \<and> input_email_body r = email_body request
           \<and> masked_email r = fst (mask_pii (email_body request))
           \<and> list_of_masked_entities r = snd (mask_pii (email_body request))
           \<and> classify_email predict m (masked_email r) = Inr (category_of_the_email r)"
proof (cases "model s")
  case None
  with assms show ?thesis by (simp add: classify_email_endpoint_def)
next
  case (Some m)
  show ?thesis
  proof (cases "classify_email predict m (fst (mask_pii (email_body request)))")
    case (Inl e)
    with assms Some show ?thesis by (simp add: endpoint_Some)
  next
    case (Inr c)
    with assms Some show ?thesis by (auto simp: endpoint_Some)
  qed
qed

lemma endpoint_response_witness:
  "classify_email_endpoint (\<lambda>m ts. [''spam'']) \<lparr>model = Some ()\<rparr> \<lparr>email_body = ''hi''\<rparr> =
     Inr \<lparr>input_email_body = ''hi'', list_of_masked_entities = [], masked_email = ''hi'', category_of_the_email = ''spam''\<rparr>
   \<and> (\<exists>m. model \<lparr>model = Some ()\<rparr> = Some m \<and> ''hi'' = ''hi'' \<and> ''hi'' = fst (mask_pii ''hi'')
        \<and> [] = snd (mask_pii ''hi'') \<and> classify_email (\<lambda>m ts. [''spam'']) m ''hi'' = Inr ''spam'')"
proof -
  have ev: "mask_pii ''hi'' = (''hi'', [])" by (simp add: mask_eval_simps)
  have h: "classify_email_endpoint (\<lambda>m ts. [''spam'']) \<lparr>model = Some ()\<rparr> \<lparr>email_body = ''hi''\<rparr> =
     Inr \<lparr>input_email_body = ''hi'', list_of_masked_entities = [], masked_email = ''hi'', category_of_the_email = ''spam''\<rparr>"
    by (simp add: endpoint_Some ev classify_email_def)
  from endpoint_response [OF h] h show ?thesis by simp
qed

text \<open>C21. Privacy boundary: two bodies with the same masked text get the
  same category (or the same error), whatever the classifier is.\<close>

theorem endpoint_category_masked_only:
  assumes "fst (mask_pii (email_body b1)) = fst (mask_pii (email_body b2))"
  shows "map_sum id category_of_the_email (classify_email_endpoint predict s b1)
       = map_sum id category_of_the_email (classify_email_endpoint predict s b2)"
proof (cases "model s")
  case None
  then show ?thesis by (simp add: classify_email_endpoint_def)
next
  case (Some m)
  with assms show ?thesis by (simp add: endpoint_Some sum.map_comp o_def)
qed

lemma endpoint_category_masked_only_witness:
  "fst (mask_pii ''ab 123'') = fst (mask_pii ''ab 456'')
   \<and> map_sum id category_of_the_email
         (classify_email_endpoint (\<lambda>m ts. ts) \<lparr>model = Some ()\<rparr> \<lparr>email_body = ''ab 123''\<rparr>)
     = map_sum id category_of_the_email
         (classify_email_endpoint (\<lambda>m ts. ts) \<lparr>model = Some ()\<rparr> \<lparr>email_body = ''ab 456''\<rparr>)"
proof -
  have h: "fst (mask_pii ''ab 123'') = fst (mask_pii ''ab 456'')" by (simp add: mask_eval_simps)
  have h': "fst (mask_pii (email_body \<lparr>email_body = ''ab 123''\<rparr>))
      = fst (mask_pii (email_body \<lparr>email_body = ''ab 456''\<rparr>))" using h by simp
  from endpoint_category_masked_only [OF h'] h show ?thesis by simp
qed

text \<open>C22. Before a model is loaded, every request is answered with the
  HTTP 500 error "Model not loaded".\<close>

theorem endpoint_not_loaded:
  "model s = None \<Longrightarrow> classify_email_endpoint predict s request = Inl (HTTPException 500 ''Model not loaded'')"
  by (simp add: classify_email_endpoint_def)

lemma endpoint_not_loaded_witness:
  "model (init_server :: unit server) = None
   \<and> classify_email_endpoint (\<lambda>m ts. ts) (init_server :: unit server) \<lparr>email_body = ''x''\<rparr> = Inl (HTTPException 500 ''Model not loaded'')"
proof -
  have h: "model (init_server :: unit server) = None" by (simp add: init_server_def)
  from endpoint_not_loaded [OF h] h show ?thesis by simp
qed

text \<open>C23. Requests do not change the server state: after any sequence of
  events the global \<open>model\<close> is what the start-ups left behind.\<close>

theorem serve_state: "model (fst (serve predict s evs)) = loaded_model (model s) evs"
  by (simp add: serve_state_eq)

text \<open>C24. When no start-up finds the model file, every request of a run
  from the initial state fails with "Model not loaded".\<close>

theorem serve_fails_until_loaded:
  assumes "list_all (\<lambda>ev. case ev of Startup fs \<Rightarrow> fs MODEL_PATH = None | Request _ \<Rightarrow> True) evs"
  shows "list_all (\<lambda>r. r = Inl (HTTPException 500 ''Model not loaded'')) (snd (serve predict init_server evs))"
proof -
  have "list_all (\<lambda>r. r = Inl (HTTPException 500 ''Model not loaded'')) (snd (serve predict s evs))"
    if "model s = None" "list_all (\<lambda>ev. case ev of Startup fs \<Rightarrow> fs MODEL_PATH = None | Request _ \<Rightarrow> True) evs"
    for s
    using that
  proof (induction predict s evs rule: serve.induct)
    case (2 predict s fs evs)
    then show ?case
      by (simp add: load_classification_model_def load_model_def)
  next
    case (3 predict s request evs)
    then show ?case by (simp add: case_prod_unfold Let_def classify_email_endpoint_def)
  qed simp
  with assms show ?thesis by (simp add: init_server_def)
qed

lemma serve_fails_until_loaded_witness:
  "list_all (\<lambda>ev. case ev of Startup fs \<Rightarrow> fs MODEL_PATH = None | Request _ \<Rightarrow> True)
     [Startup (\<lambda>_. None :: unit option), Request \<lparr>email_body = ''x''\<rparr>]
   \<and> snd (serve (\<lambda>m ts. ts) init_server [Startup (\<lambda>_. None :: unit option), Request \<lparr>email_body = ''x''\<rparr>])
     = [Inl (HTTPException 500 ''Model not loaded'')]"
proof -
  have h: "list_all (\<lambda>ev. case ev of Startup fs \<Rightarrow> fs MODEL_PATH = None | Request _ \<Rightarrow> True)
     [Startup (\<lambda>_. None :: unit option), Request \<lparr>email_body = ''x''\<rparr>]" by simp
  have "length (snd (serve (\<lambda>m ts. ts) init_server [Startup (\<lambda>_. None :: unit option), Request \<lparr>email_body = ''x''\<rparr>])) = 1"
    by (simp add: case_prod_unfold)
  with serve_fails_until_loaded [OF h, of "\<lambda>m ts. ts"] h show ?thesis
    by (cases "snd (serve (\<lambda>m ts. ts) init_server [Startup (\<lambda>_. None :: unit option), Request \<lparr>email_body = ''x''\<rparr>])") auto
qed

text \<open>C25. Once a model is loaded it stays loaded: a later start-up that
  fails keeps the old model.\<close>

theorem loaded_stays_loaded:
  "model s \<noteq> None \<Longrightarrow> model (fst (serve predict s evs)) \<noteq> None"
proof -
  have "m \<noteq> None \<Longrightarrow> loaded_model m evs \<noteq> None" for m :: "'a option"
    by (induction m evs rule: loaded_model.induct) (auto split: sum.splits)
  then show "model s \<noteq> None \<Longrightarrow> model (fst (serve predict s evs)) \<noteq> None"
    by (simp add: serve_state_eq)
qed

lemma loaded_stays_loaded_witness:
  "model \<lparr>model = Some ()\<rparr> \<noteq> None
   \<and> model (fst (serve (\<lambda>m ts. ts) \<lparr>model = Some ()\<rparr> [Startup (\<lambda>_. None)])) \<noteq> None"
proof -
  have h: "model \<lparr>model = Some ()\<rparr> \<noteq> None" by simp
  from loaded_stays_loaded [OF h] h show ?thesis by blast
qed

text \<open>C26. A missing model file makes \<open>load_model\<close> raise
  \<open>FileNotFoundError\<close>, which the start-up handler swallows: the state is
  unchanged.\<close>

theorem startup_missing_file:
  assumes "fs MODEL_PATH = None"
  shows "load_model fs = Inl FileNotFoundError \<and> load_classification_model fs s = s"
  using assms by (simp add: load_model_def load_classification_model_def)

lemma startup_missing_file_witness:
  "(\<lambda>_. None :: unit option) MODEL_PATH = None
   \<and> load_model (\<lambda>_. None :: unit option) = Inl FileNotFoundError
   \<and> load_classification_model (\<lambda>_. None :: unit option) init_server = init_server"
proof -
  have h: "(\<lambda>_. None :: unit option) MODEL_PATH = None" by simp
  from startup_missing_file [OF h, of init_server] h show ?thesis by simp
qed

end
