(* ===== verification/Training.thy ===== *)
theory Training
  imports Service "HOL-Library.Multiset"
begin

text \<open>
  \<open>train_model\<close> of \<open>src/models.py\<close> (lines 13--37): read the data set
  with \<open>pandas.read_csv\<close>, take the columns \<open>email_body\<close> and
  \<open>category\<close>, split them with \<open>train_test_split(test_size=0.2,
  random_state=42)\<close>, fit the TF-IDF/random-forest pipeline on the training
  part, print a classification report on the test part, and pickle the
  pipeline to \<open>MODEL_PATH\<close>.  The library calls are parameters: the
  permutation that the seeded generator draws for \<open>n\<close> samples, the
  pipeline's \<open>fit\<close> (which may raise, e.g. \<open>ValueError\<close> for an empty
  vocabulary), its \<open>predict\<close>, and \<open>classification_report\<close>.  The sizes
  of the split are sklearn's: \<open>n_test = ceil(0.2 * n)\<close>, which is
  \<open>ceil(n / 5)\<close> for every \<open>n < 2^53\<close> in double precision, and
  \<open>n_train = n - n_test\<close>, with \<open>ValueError\<close> when the training part is
  empty; the test indices are the first \<open>n_test\<close> of the permutation.
  The disk holds the CSV files as data frames and the pickled objects as the
  file system of \<open>Service\<close>; the printed lines are returned.
\<close>

section \<open>Data frames\<close>

text \<open>A data frame read from a CSV file: the header row and the data rows.\<close>

record frame =
  header :: "string list"
  rows :: "string list list"

fun col_index :: "string \<Rightarrow> string list \<Rightarrow> nat option" where
  "col_index c [] = None"
| "col_index c (h # hs) = (if h = c then Some 0 else map_option Suc (col_index c hs))"

text \<open>\<open>df[c]\<close>: the column, or \<open>KeyError\<close> when the header lacks it.\<close>

definition get_column :: "frame \<Rightarrow> string \<Rightarrow> py_error + string list" where
  "get_column df c =
     (case col_index c (header df) of None \<Rightarrow> Inl KeyError | Some i \<Rightarrow> Inr (map (\<lambda>r. r ! i) (rows df)))"

section \<open>\<open>train_test_split\<close>\<close>

definition split_sizes :: "nat \<Rightarrow> py_error + nat \<times> nat" where
  "split_sizes n_samples =
     (let n_test = (n_samples + 4) div 5; n_train = n_samples - n_test
      in if n_train = 0 then Inl ValueError else Inr (n_train, n_test))"

definition train_test_split ::
    "(nat \<Rightarrow> nat list) \<Rightarrow> 'a list \<Rightarrow> 'b list \<Rightarrow> py_error + 'a list \<times> 'a list \<times> 'b list \<times> 'b list" where
  "train_test_split permutation X y =
     (if length X \<noteq> length y then Inl ValueError
      else case split_sizes (length X) of
        Inl e \<Rightarrow> Inl e
      | Inr (n_train, n_test) \<Rightarrow>
          (let p = permutation (length X);
               ind_test = take n_test p;
               ind_train = take n_train (drop n_test p)
           in Inr (map ((!) X) ind_train, map ((!) X) ind_test, map ((!) y) ind_train, map ((!) y) ind_test)))"

section \<open>\<open>train_model\<close>\<close>

record 'm disk =
  csv_files :: "string \<Rightarrow> frame option"
  pickles :: "'m file_system"

definition train_model ::
    "(nat \<Rightarrow> nat list) \<Rightarrow> (string list \<Rightarrow> string list \<Rightarrow> py_error + 'm) \<Rightarrow> 'm predictor
     \<Rightarrow> (string list \<Rightarrow> string list \<Rightarrow> string) \<Rightarrow> 'm disk \<Rightarrow> string \<Rightarrow> py_error + 'm disk \<times> string list" where
  "train_model permutation fit predict report d data_path =
     (case csv_files d data_path of
        None \<Rightarrow> Inl FileNotFoundError
      | Some df \<Rightarrow>
          (case get_column df ''email_body'' of
             Inl e \<Rightarrow> Inl e
           | Inr X \<Rightarrow>
               (case get_column df ''category'' of
                  Inl e \<Rightarrow> Inl e
                | Inr y \<Rightarrow>
                    (case train_test_split permutation X y of
                       Inl e \<Rightarrow> Inl e
                     | Inr (X_train, X_test, y_train, y_test) \<Rightarrow>
                         (case fit X_train y_train of
                            Inl e \<Rightarrow> Inl e
                          | Inr pipeline \<Rightarrow>
                              (let y_pred = predict pipeline X_test
                               in Inr (d\<lparr>pickles := (pickles d)(MODEL_PATH \<mapsto> pipeline)\<rparr>,
                                       [''Classification Report:'', report y_test y_pred])))))))"

section \<open>The split\<close>

lemma split_sizes_Inr:
  "split_sizes n = Inr (n_train, n_test) \<longleftrightarrow>
     2 \<le> n \<and> n_test = (n + 4) div 5 \<and> n_train = n - n_test"
  by (auto simp: split_sizes_def Let_def)

lemma split_sizes_sum: "split_sizes n = Inr (n_train, n_test) \<Longrightarrow> n_test + n_train = n \<and> 1 \<le> n_test"
proof -
  assume "split_sizes n = Inr (n_train, n_test)"
  then have n: "2 \<le> n" "n_test = (n + 4) div 5" "n_train = n - n_test" by (simp_all add: split_sizes_Inr)
  from n(1) have "(n + 4) div 5 \<le> n" by linarith
  moreover from n(1) have "1 \<le> (n + 4) div 5" by simp
  ultimately show ?thesis using n by simp
qed

lemma length_perm: "mset p = mset [0..<n] \<Longrightarrow> length p = n"
  using mset_eq_length by fastforce

lemma set_perm: "mset p = mset [0..<n] \<Longrightarrow> set p = {..<n}"
  by (drule arg_cong [where f = set_mset]) (simp add: atLeast0LessThan)

text \<open>Indexing two aligned lists with the same indices gives the pairs of the
  zipped list at those indices.\<close>

lemma zip_map_nth:
  "length X = length y \<Longrightarrow> \<forall>i \<in> set I. i < length X \<Longrightarrow>
   zip (map ((!) X) I) (map ((!) y) I) = map ((!) (zip X y)) I"
  by (induction I) auto

lemma mset_map_perm:
  assumes "mset p = mset [0..<length xs]"
  shows "mset (map ((!) xs) p) = mset xs"
proof -
  have "mset (map ((!) xs) p) = image_mset ((!) xs) (mset [0..<length xs])"
    by (simp only: mset_map assms)
  also have "\<dots> = mset (map ((!) xs) [0..<length xs])" by simp
  also have "map ((!) xs) [0..<length xs] = xs" by (rule map_nth)
  finally show ?thesis .
qed

lemma train_test_split_Inr:
  assumes "train_test_split permutation X y = Inr (X_train, X_test, y_train, y_test)"
  obtains n_train n_test where "length X = length y" "split_sizes (length X) = Inr (n_train, n_test)"
    "X_train = map ((!) X) (take n_train (drop n_test (permutation (length X))))"
    "X_test = map ((!) X) (take n_test (permutation (length X)))"
    "y_train = map ((!) y) (take n_train (drop n_test (permutation (length X))))"
    "y_test = map ((!) y) (take n_test (permutation (length X)))"
  using assms by (auto simp: train_test_split_def Let_def split: if_splits sum.splits)

text \<open>C29. When the generator draws a permutation of the sample indices,
  \<open>train_test_split\<close> puts \<open>ceil(n / 5)\<close> samples in the test part and
  the rest, at least one, in the training part, and every (email, label)
  pair of the data set lands, still paired, in exactly one of the parts.\<close>

theorem train_test_split_partition:
  assumes perm: "mset (permutation (length X)) = mset [0..<length X]"
    and split: "train_test_split permutation X y = Inr (X_train, X_test, y_train, y_test)"
  shows "length X_test = (length X + 4) div 5 \<and> length X_train = length X - (length X + 4) div 5
         \<and> 0 < length X_train \<and> 0 < length X_test
         \<and> mset (zip X_train y_train) + mset (zip X_test y_test) = mset (zip X y)"
proof -
  let ?n = "length X" and ?p = "permutation (length X)"
  from split obtain n_train n_test where len: "length X = length y"
    and sz: "split_sizes ?n = Inr (n_train, n_test)"
    and parts: "X_train = map ((!) X) (take n_train (drop n_test ?p))" "X_test = map ((!) X) (take n_test ?p)"
      "y_train = map ((!) y) (take n_train (drop n_test ?p))" "y_test = map ((!) y) (take n_test ?p)"
    by (rule train_test_split_Inr)
  from split_sizes_sum [OF sz] have sum: "n_test + n_train = ?n" "1 \<le> n_test" by simp_all
  from sz have nt: "n_test = (?n + 4) div 5" "n_train = ?n - n_test" and "2 \<le> ?n"
    by (simp_all add: split_sizes_Inr)
  from perm have lp: "length ?p = ?n" and sp: "set ?p = {..<?n}" by (rule length_perm, rule set_perm)
  have drop_all: "take n_train (drop n_test ?p) = drop n_test ?p" using lp sum by simp
  have idx: "\<forall>i \<in> set (take n_test ?p). i < ?n" "\<forall>i \<in> set (drop n_test ?p). i < ?n"
    using sp by (auto dest: in_set_takeD in_set_dropD)
  have "mset (zip X_train y_train) + mset (zip X_test y_test)
        = mset (map ((!) (zip X y)) (drop n_test ?p)) + mset (map ((!) (zip X y)) (take n_test ?p))"
    unfolding parts drop_all using len idx by (simp only: zip_map_nth)
  also have "\<dots> = mset (map ((!) (zip X y)) (take n_test ?p @ drop n_test ?p))"
    by (simp only: map_append mset_append add.commute)
  also have "\<dots> = mset (map ((!) (zip X y)) ?p)"
    by (simp only: append_take_drop_id)
  also have "\<dots> = mset (zip X y)"
    by (rule mset_map_perm) (use perm len in simp)
  finally show ?thesis
    using lp sum nt \<open>2 \<le> ?n\<close> by (simp add: parts drop_all)
qed

lemma train_test_split_partition_witness:
  "mset ((\<lambda>n. rev [0..<n]) (length [''hi'', ''yo''])) = mset [0..<length [''hi'', ''yo'']]
   \<and> train_test_split (\<lambda>n. rev [0..<n]) [''hi'', ''yo''] [''a'', ''b''] = Inr ([''hi''], [''yo''], [''a''], [''b''])
   \<and> length [''yo''] = (length [''hi'', ''yo''] + 4) div 5
   \<and> mset (zip [''hi''] [''a'']) + mset (zip [''yo''] [''b'']) = mset (zip [''hi'', ''yo''] [''a'', ''b''])"
proof -
  have h1: "mset ((\<lambda>n. rev [0..<n]) (length [''hi'', ''yo''])) = mset [0..<length [''hi'', ''yo'']]"
    by simp
  have h2: "train_test_split (\<lambda>n. rev [0..<n]) [''hi'', ''yo''] [''a'', ''b''] = Inr ([''hi''], [''yo''], [''a''], [''b''])"
    by (simp add: train_test_split_def split_sizes_def upt_rec)
  from train_test_split_partition [OF h1 h2] h1 h2 show ?thesis by blast
qed

section \<open>\<open>train_model\<close>: errors, the pickled model, and serving it\<close>

lemma col_index_None: "col_index c hs = None \<longleftrightarrow> c \<notin> set hs"
  by (induction hs) auto

lemma get_column_KeyError: "c \<notin> set (header df) \<Longrightarrow> get_column df c = Inl KeyError"
  by (simp add: get_column_def col_index_None [symmetric])

lemma get_column_length: "get_column df c = Inr X \<Longrightarrow> length X = length (rows df)"
  by (auto simp: get_column_def split: option.splits)

lemma get_column_present: "c \<in> set (header df) \<Longrightarrow> \<exists>X. get_column df c = Inr X"
  by (cases "col_index c (header df)") (auto simp: get_column_def col_index_None)

lemma train_test_split_short:
  "length X = length y \<Longrightarrow> length X < 2 \<Longrightarrow> train_test_split permutation X y = Inl ValueError"
  by (simp add: train_test_split_def split_sizes_def Let_def)

lemma train_model_Inr:
  assumes "train_model permutation fit predict report d data_path = Inr (d', out)"
  obtains df X y X_train X_test y_train y_test pipeline where
    "csv_files d data_path = Some df" "get_column df ''email_body'' = Inr X"
    "get_column df ''category'' = Inr y"
    "train_test_split permutation X y = Inr (X_train, X_test, y_train, y_test)"
    "fit X_train y_train = Inr pipeline"
    "d' = d\<lparr>pickles := (pickles d)(MODEL_PATH \<mapsto> pipeline)\<rparr>"
    "out = [''Classification Report:'', report y_test (predict pipeline X_test)]"
  using assms by (auto simp: train_model_def Let_def split: option.splits sum.splits prod.splits)

text \<open>C30. \<open>train_model\<close> raises \<open>FileNotFoundError\<close> for a missing data
  file, \<open>KeyError\<close> when the header lacks \<open>email_body\<close> or \<open>category\<close>,
  and \<open>ValueError\<close> from \<open>train_test_split\<close> for fewer than two rows; in
  each case it returns before \<open>open(MODEL_PATH, 'wb')\<close>, so no model file is
  written.\<close>

theorem train_model_errors:
  "(csv_files d data_path = None \<longrightarrow>
      train_model permutation fit predict report d data_path = Inl FileNotFoundError)
   \<and> (csv_files d data_path = Some df \<and> (''email_body'' \<notin> set (header df) \<or> ''category'' \<notin> set (header df)) \<longrightarrow>
      train_model permutation fit predict report d data_path = Inl KeyError)
   \<and> (csv_files d data_path = Some df \<and> ''email_body'' \<in> set (header df) \<and> ''category'' \<in> set (header df)
        \<and> length (rows df) < 2 \<longrightarrow>
      train_model permutation fit predict report d data_path = Inl ValueError)"
proof (intro conjI impI)
  assume "csv_files d data_path = None"
  then show "train_model permutation fit predict report d data_path = Inl FileNotFoundError"
    by (simp add: train_model_def)
next
  assume a: "csv_files d data_path = Some df \<and> (''email_body'' \<notin> set (header df) \<or> ''category'' \<notin> set (header df))"
  then show "train_model permutation fit predict report d data_path = Inl KeyError"
  proof (cases "''email_body'' \<in> set (header df)")
    case True
    then obtain X where "get_column df ''email_body'' = Inr X" by (blast dest: get_column_present)
    with a True show ?thesis by (simp add: train_model_def get_column_KeyError)
  qed (simp add: train_model_def get_column_KeyError)
next
  assume a: "csv_files d data_path = Some df \<and> ''email_body'' \<in> set (header df) \<and> ''category'' \<in> set (header df)
        \<and> length (rows df) < 2"
  then obtain X y where X: "get_column df ''email_body'' = Inr X" and y: "get_column df ''category'' = Inr y"
    by (blast dest: get_column_present)
  from X y a have "train_test_split permutation X y = Inl ValueError"
    by (simp add: train_test_split_short get_column_length)
  with a X y show "train_model permutation fit predict report d data_path = Inl ValueError"
    by (simp add: train_model_def)
qed

text \<open>C31. A successful \<open>train_model\<close> leaves at \<open>MODEL_PATH\<close> the pipeline
  fitted on the training part of the split, which \<open>load_model\<close> then
  returns; the data files and the other pickles are unchanged, and the
  report is printed under its title.\<close>

theorem train_then_load:
  assumes "train_model permutation fit predict report d data_path = Inr (d', out)"
  shows "\<exists>df X y X_train X_test y_train y_test.
           csv_files d data_path = Some df \<and> get_column df ''email_body'' = Inr X
           \<and> get_column df ''category'' = Inr y
           \<and> train_test_split permutation X y = Inr (X_train, X_test, y_train, y_test)
           \<and> load_model (pickles d') = fit X_train y_train
           \<and> csv_files d' = csv_files d \<and> (\<forall>p. p \<noteq> MODEL_PATH \<longrightarrow> pickles d' p = pickles d p)
           \<and> hd out = ''Classification Report:''"
  using assms
proof (rule train_model_Inr)
  fix df X y X_train X_test y_train y_test pipeline
  assume "csv_files d data_path = Some df" "get_column df ''email_body'' = Inr X"
    "get_column df ''category'' = Inr y"
    "train_test_split permutation X y = Inr (X_train, X_test, y_train, y_test)"
    "fit X_train y_train = Inr pipeline"
    "d' = d\<lparr>pickles := (pickles d)(MODEL_PATH \<mapsto> pipeline)\<rparr>"
    "out = [''Classification Report:'', report y_test (predict pipeline X_test)]"
  then show ?thesis by (auto simp: load_model_def)
qed

text \<open>C32. Once a training run has succeeded, a start-up on the resulting disk
  loads a model, and from then on no request is refused: every request of
  any sequence gets the endpoint's answer with the loaded model, never the
  \<open>HTTPException\<close> of lines 36--37.\<close>

theorem train_then_serve:
  assumes "train_model permutation fit predict report d data_path = Inr (d', out)"
  shows "\<exists>m. model (fst (serve predict s (Startup (pickles d') # map Request bodies))) = Some m
           \<and> snd (serve predict s (Startup (pickles d') # map Request bodies))
               = map (classify_email_endpoint predict (s\<lparr>model := Some m\<rparr>)) bodies
           \<and> list_all (\<lambda>r. \<forall>c msg. r \<noteq> Inl (HTTPException c msg))
               (snd (serve predict s (Startup (pickles d') # map Request bodies)))"
  using assms
proof (rule train_model_Inr)
  fix df X y X_train X_test y_train y_test pipeline
  assume "d' = d\<lparr>pickles := (pickles d)(MODEL_PATH \<mapsto> pipeline)\<rparr>"
  then have load: "load_classification_model (pickles d') s = s\<lparr>model := Some pipeline\<rparr>"
    by (simp add: load_classification_model_def load_model_def)
  show ?thesis
    by (intro exI [of _ pipeline])
       (simp add: load serve_requests list_all_iff endpoint_loaded)
qed

lemma train_model_errors_witness:
  "train_model (\<lambda>n. rev [0..<n]) (\<lambda>X y. Inr (hd y)) (\<lambda>m ts. map (\<lambda>_. m) ts) (\<lambda>a b. ''ok'') \<lparr>csv_files = [''data.csv'' \<mapsto> \<lparr>header = [''email_body'', ''category''], rows = [[''hi'', ''a''], [''yo'', ''b'']]\<rparr>], pickles = (Map.empty :: string file_system)\<rparr> ''none.csv'' = Inl FileNotFoundError
   \<and> train_model (\<lambda>n. rev [0..<n]) (\<lambda>X y. Inr (hd y)) (\<lambda>m ts. map (\<lambda>_. m) ts) (\<lambda>a b. ''ok'') \<lparr>csv_files = [''d.csv'' \<mapsto> \<lparr>header = [''body'', ''category''], rows = []\<rparr>],
        pickles = (Map.empty :: string file_system)\<rparr> ''d.csv'' = Inl KeyError
   \<and> train_model (\<lambda>n. rev [0..<n]) (\<lambda>X y. Inr (hd y)) (\<lambda>m ts. map (\<lambda>_. m) ts) (\<lambda>a b. ''ok'') \<lparr>csv_files = [''d.csv'' \<mapsto> \<lparr>header = [''email_body'', ''category''], rows = [[''hi'', ''a'']]\<rparr>],
        pickles = (Map.empty :: string file_system)\<rparr> ''d.csv'' = Inl ValueError"
  using train_model_errors [of "\<lparr>csv_files = [''data.csv'' \<mapsto> \<lparr>header = [''email_body'', ''category''], rows = [[''hi'', ''a''], [''yo'', ''b'']]\<rparr>], pickles = (Map.empty :: string file_system)\<rparr>" "''none.csv''" "\<lambda>n. rev [0..<n]" "\<lambda>X y. Inr (hd y)" "\<lambda>m ts. map (\<lambda>_. m) ts" "\<lambda>a b. ''ok''" "\<lparr>header = [], rows = []\<rparr>"]
    train_model_errors [of "\<lparr>csv_files = [''d.csv'' \<mapsto> \<lparr>header = [''body'', ''category''], rows = []\<rparr>],
        pickles = (Map.empty :: string file_system)\<rparr>" "''d.csv''" "\<lambda>n. rev [0..<n]" "\<lambda>X y. Inr (hd y)" "\<lambda>m ts. map (\<lambda>_. m) ts" "\<lambda>a b. ''ok''"
        "\<lparr>header = [''body'', ''category''], rows = []\<rparr>"]
    train_model_errors [of "\<lparr>csv_files = [''d.csv'' \<mapsto> \<lparr>header = [''email_body'', ''category''], rows = [[''hi'', ''a'']]\<rparr>],
        pickles = (Map.empty :: string file_system)\<rparr>" "''d.csv''" "\<lambda>n. rev [0..<n]" "\<lambda>X y. Inr (hd y)" "\<lambda>m ts. map (\<lambda>_. m) ts" "\<lambda>a b. ''ok''"
        "\<lparr>header = [''email_body'', ''category''], rows = [[''hi'', ''a'']]\<rparr>"]
  by simp

lemma train_then_load_witness:
  "train_model (\<lambda>n. rev [0..<n]) (\<lambda>X y. Inr (hd y)) (\<lambda>m ts. map (\<lambda>_. m) ts) (\<lambda>a b. ''ok'') \<lparr>csv_files = [''data.csv'' \<mapsto> \<lparr>header = [''email_body'', ''category''], rows = [[''hi'', ''a''], [''yo'', ''b'']]\<rparr>], pickles = (Map.empty :: string file_system)\<rparr> ''data.csv''
     = Inr (\<lparr>csv_files = [''data.csv'' \<mapsto> \<lparr>header = [''email_body'', ''category''], rows = [[''hi'', ''a''], [''yo'', ''b'']]\<rparr>], pickles = (Map.empty :: string file_system)\<rparr>\<lparr>pickles := (pickles \<lparr>csv_files = [''data.csv'' \<mapsto> \<lparr>header = [''email_body'', ''category''], rows = [[''hi'', ''a''], [''yo'', ''b'']]\<rparr>], pickles = (Map.empty :: string file_system)\<rparr>)(MODEL_PATH \<mapsto> ''a'')\<rparr>, [''Classification Report:'', ''ok''])
   \<and> load_model (pickles (\<lparr>csv_files = [''data.csv'' \<mapsto> \<lparr>header = [''email_body'', ''category''], rows = [[''hi'', ''a''], [''yo'', ''b'']]\<rparr>], pickles = (Map.empty :: string file_system)\<rparr>\<lparr>pickles := (pickles \<lparr>csv_files = [''data.csv'' \<mapsto> \<lparr>header = [''email_body'', ''category''], rows = [[''hi'', ''a''], [''yo'', ''b'']]\<rparr>], pickles = (Map.empty :: string file_system)\<rparr>)(MODEL_PATH \<mapsto> ''a'')\<rparr>)) = Inr ''a''"
proof -
  have h: "train_model (\<lambda>n. rev [0..<n]) (\<lambda>X y. Inr (hd y)) (\<lambda>m ts. map (\<lambda>_. m) ts) (\<lambda>a b. ''ok'') \<lparr>csv_files = [''data.csv'' \<mapsto> \<lparr>header = [''email_body'', ''category''], rows = [[''hi'', ''a''], [''yo'', ''b'']]\<rparr>], pickles = (Map.empty :: string file_system)\<rparr> ''data.csv''
     = Inr (\<lparr>csv_files = [''data.csv'' \<mapsto> \<lparr>header = [''email_body'', ''category''], rows = [[''hi'', ''a''], [''yo'', ''b'']]\<rparr>], pickles = (Map.empty :: string file_system)\<rparr>\<lparr>pickles := (pickles \<lparr>csv_files = [''data.csv'' \<mapsto> \<lparr>header = [''email_body'', ''category''], rows = [[''hi'', ''a''], [''yo'', ''b'']]\<rparr>], pickles = (Map.empty :: string file_system)\<rparr>)(MODEL_PATH \<mapsto> ''a'')\<rparr>, [''Classification Report:'', ''ok''])"
    by (simp add: train_model_def get_column_def train_test_split_def split_sizes_def upt_rec)
  from train_then_load [OF h] h show ?thesis
    by (auto simp: get_column_def train_test_split_def split_sizes_def upt_rec)
qed

lemma train_then_serve_witness:
  "train_model (\<lambda>n. rev [0..<n]) (\<lambda>X y. Inr (hd y)) (\<lambda>m ts. map (\<lambda>_. m) ts) (\<lambda>a b. ''ok'') \<lparr>csv_files = [''data.csv'' \<mapsto> \<lparr>header = [''email_body'', ''category''], rows = [[''hi'', ''a''], [''yo'', ''b'']]\<rparr>], pickles = (Map.empty :: string file_system)\<rparr> ''data.csv''
     = Inr (\<lparr>csv_files = [''data.csv'' \<mapsto> \<lparr>header = [''email_body'', ''category''], rows = [[''hi'', ''a''], [''yo'', ''b'']]\<rparr>], pickles = (Map.empty :: string file_system)\<rparr>\<lparr>pickles := (pickles \<lparr>csv_files = [''data.csv'' \<mapsto> \<lparr>header = [''email_body'', ''category''], rows = [[''hi'', ''a''], [''yo'', ''b'']]\<rparr>], pickles = (Map.empty :: string file_system)\<rparr>)(MODEL_PATH \<mapsto> ''a'')\<rparr>, [''Classification Report:'', ''ok''])
   \<and> list_all (\<lambda>r. \<forall>c msg. r \<noteq> Inl (HTTPException c msg))
       (snd (serve (\<lambda>m ts. map (\<lambda>_. m) ts) init_server
          [Startup (pickles (\<lparr>csv_files = [''data.csv'' \<mapsto> \<lparr>header = [''email_body'', ''category''], rows = [[''hi'', ''a''], [''yo'', ''b'']]\<rparr>], pickles = (Map.empty :: string file_system)\<rparr>\<lparr>pickles := (pickles \<lparr>csv_files = [''data.csv'' \<mapsto> \<lparr>header = [''email_body'', ''category''], rows = [[''hi'', ''a''], [''yo'', ''b'']]\<rparr>], pickles = (Map.empty :: string file_system)\<rparr>)(MODEL_PATH \<mapsto> ''a'')\<rparr>)), Request \<lparr>email_body = ''hi''\<rparr>]))"
proof -
  have h: "train_model (\<lambda>n. rev [0..<n]) (\<lambda>X y. Inr (hd y)) (\<lambda>m ts. map (\<lambda>_. m) ts) (\<lambda>a b. ''ok'') \<lparr>csv_files = [''data.csv'' \<mapsto> \<lparr>header = [''email_body'', ''category''], rows = [[''hi'', ''a''], [''yo'', ''b'']]\<rparr>], pickles = (Map.empty :: string file_system)\<rparr> ''data.csv''
     = Inr (\<lparr>csv_files = [''data.csv'' \<mapsto> \<lparr>header = [''email_body'', ''category''], rows = [[''hi'', ''a''], [''yo'', ''b'']]\<rparr>], pickles = (Map.empty :: string file_system)\<rparr>\<lparr>pickles := (pickles \<lparr>csv_files = [''data.csv'' \<mapsto> \<lparr>header = [''email_body'', ''category''], rows = [[''hi'', ''a''], [''yo'', ''b'']]\<rparr>], pickles = (Map.empty :: string file_system)\<rparr>)(MODEL_PATH \<mapsto> ''a'')\<rparr>, [''Classification Report:'', ''ok''])"
    by (simp add: train_model_def get_column_def train_test_split_def split_sizes_def upt_rec)
  from train_then_serve [OF h, of init_server "[\<lparr>email_body = ''hi''\<rparr>]"] h show ?thesis
    by auto
qed

end
