(* ===== verification/Spec2Isabelle.thy ===== *)
theory Spec2Isabelle
  imports Demasker Shapes Training
begin

text \<open>
  \<^bold>\<open>A verified model of the PII masking engine of Email-Classification-for-Support-Team.\<close>

  \<^bold>\<open>The program.\<close>  \<open>src/utils.py\<close> holds the core: \<open>mask_pii\<close> finds
  personal and payment data in an e-mail body with the regular expressions of
  the registry \<open>PATTERNS\<close>, resolves overlapping matches, replaces each kept
  match by a tag \<open>[kind]\<close> and returns the masked text with a list of records
  \<open>{position, classification, entity}\<close>; \<open>demask_pii\<close> reverses the
  replacement from those records.  \<open>src/models.py\<close> loads a pickled
  classifier and applies it to a text; \<open>src/api.py\<close> loads the classifier
  at start-up and serves \<open>/classify_email\<close>, which masks the body and
  classifies the masked text.

  \<^bold>\<open>Theories, in dependency order.\<close>
  \<^item> \<open>Prelude\<close>: Python's slicing \<open>s[i:j]\<close> (\<open>slice\<close>), \<open>str.find\<close>
    (\<open>find_idx\<close>, \<open>py_find\<close>), \<open>ord\<close>, the exceptions raised
    (\<open>py_error\<close>), and lemmas on slices and on the first occurrence of a word.
  \<^item> \<open>Regex\<close>: the regular-expression syntax the patterns use (\<open>rx\<close>) and
    the semantics of \<open>re.finditer\<close>: \<open>ends\<close>/\<open>rep\<close> list the end positions
    of a match in the order of the backtracking engine, \<open>match_at\<close> takes the
    first, \<open>finditer\<close> scans left to right.  Lemmas: every match consumes a
    prefix of at least \<open>min_len\<close> characters (\<open>ends_consumes\<close>);
    \<open>finditer\<close> returns spans in bounds, in order, non-overlapping, each
    the engine's match at its start.
  \<^item> \<open>Regex_Lang\<close>: a declarative semantics of the same syntax, the
    inductive language \<open>lang\<close>/\<open>lang_rep\<close> (executable through
    \<open>code_pred\<close>; \<open>\b\<close> reads as the empty word), and the soundness of the
    backtracking model for it: every end cursor of \<open>ends\<close> consumes a word
    of the language (\<open>ends_lang\<close>), so does every match of \<open>finditer\<close>
    (\<open>finditer_word\<close>); \<open>Shapes\<close> builds on it.
  \<^item> \<open>Patterns\<close>: the registry (lines 9--18) as the ordered list
    \<open>PATTERNS\<close> of \<open>entity_kind \<times> rx\<close>, each regex transcribed; the kind
    names are distinct and bracket-free, and no pattern matches the empty
    string.
  \<^item> \<open>Scanner\<close> (lines 31--36): \<open>scan\<close> builds the candidate records
    \<open>cand\<close> in registry order, then match order.
  \<^item> \<open>Shapes\<close>: for each entity kind a regex-free predicate
    \<open>shape k\<close> on the text of a match (digit counts, separators, one
    \<open>@\<close>, capitalised words, day, month and year ranges), the proof that
    every word of each pattern has its kind's shape, and that every
    candidate of \<open>scan\<close> has it.
  \<^item> \<open>Resolver\<close> (lines 38--47): \<open>sort_matches\<close> (stable sort by start),
    the filter loop \<open>filter_step\<close>/\<open>filter_overlaps\<close> as a fold over
    \<open>(filtered_matches, prev_end)\<close>, \<open>resolve\<close>, and the recursive
    reference \<open>greedy\<close>.
  \<^item> \<open>Masker\<close> (lines 20--61): \<open>masked_entity\<close>, \<open>tag_of\<close>,
    \<open>mask_step\<close> (loop body), \<open>mask_spans\<close>, \<open>mask_pii\<close>, and the
    left-to-right reference \<open>render\<close>.
  \<^item> \<open>Demasker\<close> (lines 63--78): \<open>demask_step\<close>, \<open>demask_loop\<close>,
    \<open>demask_pii\<close>, returning \<open>py_error + string\<close>.
  \<^item> \<open>Service\<close>: \<open>load_model\<close>, \<open>classify_email\<close> (models.py 39--54);
    the server state, \<open>load_classification_model\<close> and
    \<open>classify_email_endpoint\<close> (api.py 24--49); runs of start-up and
    request events (\<open>serve\<close>).
  \<^item> \<open>Training\<close>: \<open>train_model\<close> (models.py 13--37) over a disk of CSV
    data frames and pickles: column access \<open>get_column\<close> (\<open>KeyError\<close>),
    \<open>train_test_split\<close> with sklearn's sizes (\<open>split_sizes\<close>), the
    fitted pipeline pickled to \<open>MODEL_PATH\<close>.  Lemmas: the split is a
    partition of the (email, label) pairs (a multiset identity), the error
    paths, training followed by \<open>load_model\<close>, and training followed by a
    start-up and any sequence of requests.

  \<^bold>\<open>What is proved.\<close>  The masking pipeline equals its left-to-right
  specification (\<open>Masker.mask_pii_spec\<close>): rewriting right to left keeps the
  offsets valid because the kept spans never overlap
  (\<open>Resolver.resolve_non_overlapping\<close>).  Records come out in text order,
  each holding the original slice.  Resolution is greedy earliest-start
  selection with ties broken by registry order, not longest match.  The
  round trip \<open>demask_pii (mask_pii t) = t\<close> holds when \<open>t\<close> contains no
  \<open>[\<close> and the masked kinds are pairwise distinct
  (\<open>Demasker.demask_mask_roundtrip\<close>), and fails for two entities of
  the same kind, which \<open>demask_pii\<close> puts back in swapped places
  (\<open>Demasker.demask_swaps_same_kind\<close>).  The masked text is the input with
  each recorded entity's characters exchanged for its tag's
  (\<open>Masker.mask_pii_length\<close>).  \<open>demask_pii\<close> raises \<open>ValueError\<close>
  exactly for a position that is not a pair, skips missing tags silently,
  and ignores the recorded offsets.  The endpoint gives the classifier only
  the masked text, and fails with HTTP 500 until a start-up has loaded the
  model.  Every record names a registry kind and holds a text of that kind's
  shape (\<open>mask_pii_entity_shape\<close>), a consequence of the soundness of the
  matcher for \<open>Regex_Lang.lang\<close> and of the per-kind inversion lemmas
  of \<open>Shapes\<close>.  \<open>train_model\<close> splits the data into a partition of its
  (email, label) pairs, fails with the exceptions of \<open>pandas\<close> and
  \<open>train_test_split\<close> before writing anything, and otherwise leaves the
  pipeline fitted on the training part where \<open>load_model\<close> finds it, after
  which a start-up makes the service answer every request.

  \<^bold>\<open>Bounds and termination.\<close>  \<open>ends\<close>/\<open>rep\<close>
  terminate by the size of the pattern, the repetition count and the length
  of the remaining input (an optional iteration must consume input);
  \<open>finditer\<close> by the remaining input.  The test size of
  \<open>train_test_split\<close> is computed in sklearn as \<open>ceil(0.2 * n)\<close> in
  double precision; since the double nearest 0.2 exceeds it by the factor
  \<open>1 + 2^-54\<close>, the product rounds to \<open>n / 5\<close> whenever that is an
  integer, so \<open>ceil(0.2 * n) = ceil(n / 5)\<close> for all \<open>n < 2^53\<close>,
  written \<open>(n + 4) div 5\<close>.  Offsets are \<open>nat\<close>; \<open>prev_end\<close>
  is \<open>int\<close> because of its sentinel \<open>-1\<close>.

  \<^bold>\<open>Not modelled.\<close>  The statistics inside \<open>train_model\<close>: the
  TF-IDF vectoriser and the random forest are the parameter \<open>fit\<close>, the
  seeded shuffle is a permutation parameter, \<open>classification_report\<close> a
  string-valued parameter, and CSV parsing is the disk's map from paths to
  data frames.  The unused spaCy model \<open>nlp\<close>, pydantic validation of
  requests and responses, and the HTTP framing of FastAPI are not modelled.
  The classifier is an arbitrary function.
  Character classes are exact on ASCII text only.  Isabelle's \<open>char\<close> also
  has the codes 128--255, where the model's \<open>\s\<close>, \<open>\w\<close> and \<open>\b\<close> keep
  their ASCII meaning while Python's Unicode-aware classes differ (Python
  reads \<open>\xa0\<close> as white space, so \<open>John\xa0Smith\<close> is a full name, and
  \<open>\xe9\<close> (e acute) as a word character, which moves \<open>\b\<close>); the theorems are about
  the model, so for such texts they say nothing about the program.  Code
  points beyond 255 are not represented.  Capture groups are omitted since
  they do not change a match's extent.
\<close>

section \<open>The examples of the specification, evaluated\<close>

text \<open>These evaluations are the evidence for the findings on the examples of
  the specification; they agree with Python's \<open>re\<close> on the same inputs.
  The specification expects \<open>"Contact [full_name] at [email] or
  [phone_number]."\<close> for this input; the \<open>full_name\<close> pattern also takes the
  capitalised word \<open>Contact\<close>, so the masked text starts with the tag.\<close>

lemma mask_example_contact:
  "mask_pii ''Contact John Smith at john.smith@example.com or 9876543210.'' =
     (''[full_name] at [email] or [phone_number].'',
      [\<lparr>position = [0, 18], classification = ''full_name'', entity = ''Contact John Smith''\<rparr>,
       \<lparr>position = [22, 44], classification = ''email'', entity = ''john.smith@example.com''\<rparr>,
       \<lparr>position = [48, 58], classification = ''phone_number'', entity = ''9876543210''\<rparr>])"
  by (simp add: mask_eval_simps)

text \<open>The specification expects \<open>credit_debit_no\<close> to win the card
  number; \<open>phone_number\<close> comes first in the registry and matches at the same
  offset (fifteen digits), so it wins and the last digit stays in the text.\<close>

lemma mask_example_card:
  "mask_pii ''Card 1234567812345678 exp 12/25 cvv 123'' =
     (''Card [phone_number]8 exp [expiry_no] cvv [cvv_no]'',
      [\<lparr>position = [5, 20], classification = ''phone_number'', entity = ''123456781234567''\<rparr>,
       \<lparr>position = [26, 31], classification = ''expiry_no'', entity = ''12/25''\<rparr>,
       \<lparr>position = [36, 39], classification = ''cvv_no'', entity = ''123''\<rparr>])"
  by (simp add: mask_eval_simps)

text \<open>Masking and then demasking a text with two phone numbers swaps them,
  as \<open>Demasker.demask_swaps_same_kind\<close> predicts.\<close>

lemma demask_swap_example:
  "demask_pii (fst (mask_pii ''Call 9876543210 or 9123456780.''))
              (snd (mask_pii ''Call 9876543210 or 9123456780.''))
     = Inr ''Call 9123456780 or 9876543210.''"
  by (simp add: mask_eval_simps demask_pii_def demask_step_def py_find_def find_idx.simps)

text \<open>C28. Every record that \<open>mask_pii\<close> returns names an entity kind and
  holds a text of that kind's shape: the masked entities of a request are
  digits where the kind is numeric, one \<open>@\<close> for an e-mail address, and so
  on (\<open>Shapes.shape\<close>).\<close>

theorem mask_pii_entity_shape:
  assumes "e \<in> set (snd (mask_pii t))"
  shows "\<exists>k. classification e = kind_name k \<and> shape k (entity e)"
proof -
  from assms obtain m where m: "m \<in> set (resolve (scan t))" and e: "e = entity_record m"
    by (auto simp: mask_pii_eq)
  from m have "m \<in> set (scan t)" using resolve_subset by blast
  then obtain r where "(m_kind m, r) \<in> set PATTERNS" "lang r (m_text m)" by (blast dest: scan_lang)
  then have "shape (m_kind m) (m_text m)" by (rule lang_shape)
  with e show ?thesis by (auto simp: entity_record_def)
qed

lemma mask_pii_entity_shape_witness:
  "\<lparr>position = [5, 15], classification = ''phone_number'', entity = ''9876543210''\<rparr>
     \<in> set (snd (mask_pii ''Call 9876543210.''))
   \<and> (\<exists>k. ''phone_number'' = kind_name k \<and> shape k ''9876543210'')"
proof -
  have ev: "mask_pii ''Call 9876543210.'' =
      (''Call [phone_number].'', [\<lparr>position = [5, 15], classification = ''phone_number'', entity = ''9876543210''\<rparr>])"
    by (simp add: mask_eval_simps)
  have h: "\<lparr>position = [5, 15], classification = ''phone_number'', entity = ''9876543210''\<rparr>
      \<in> set (snd (mask_pii ''Call 9876543210.''))"
    by (simp add: ev)
  from mask_pii_entity_shape [OF h] h show ?thesis by simp
qed

end
